theory Spec2Isabelle
  imports Main "HOL-Library.Multiset"
begin

section \<open>Python values, exceptions and outcomes\<close>

text \<open>
  The module \<^verbatim>\<open>selscrape\<close> spawns a headless X server and a Selenium server, watches
  their output through a \<^verbatim>\<open>MergedStream\<close>, and hands a client to the caller.  Every
  call into the outside world (\<^verbatim>\<open>Popen\<close>, \<^verbatim>\<open>random.randint\<close>, \<^verbatim>\<open>os.environ\<close>, the
  client's \<^verbatim>\<open>start\<close> and \<^verbatim>\<open>stop\<close>) is answered by an oracle stored in the world, and
  every such call is appended to a trace, so that the order of calls can be stated.
\<close>

datatype pyval = Str string | Num nat

text \<open>
  Exceptions.  \<^verbatim>\<open>Exception fmt args\<close> stands for \<^verbatim>\<open>Exception(fmt % args)\<close>.
  \<^verbatim>\<open>KeyboardInterrupt\<close> and \<^verbatim>\<open>SystemExit\<close> derive from \<^verbatim>\<open>BaseException\<close> only; all the
  others are instances of \<^verbatim>\<open>Exception\<close>.
\<close>

datatype exn =
    Exception string "pyval list"
  | KeyError string
  | OSError string
  | ValueError
  | AttributeError string
  | OtherException string
  | KeyboardInterrupt
  | SystemExit

fun isinstance_Exception :: "exn \<Rightarrow> bool" where
  "isinstance_Exception KeyboardInterrupt = False"
| "isinstance_Exception SystemExit = False"
| "isinstance_Exception _ = True"

text \<open>
  A call returns a value, raises, or never returns (\<open>Blocked\<close>: a blocking read on a
  queue that nothing will ever fill, a \<^verbatim>\<open>wait\<close> on a process that never exits).
\<close>

datatype 'a result = Value 'a | Raise exn | Blocked

section \<open>The world: processes, oracles and the trace\<close>

text \<open>An item on the queue of a \<^verbatim>\<open>MergedStream\<close>: a line, or \<^verbatim>\<open>Close(stream)\<close>; a
  stream is named by its position in the constructor's argument list.\<close>

datatype item = Line string | Close nat

datatype stream = Stdout nat | Stderr nat | Merged nat

datatype event =
    RandInt nat nat nat
  | Spawned nat "string list" "string option"
  | SpawnFailed "string list"
  | Sleep nat
  | Poll nat
  | Communicate nat
  | Kill nat
  | Wait nat
  | Info string "pyval list"
  | Debug string
  | LogOutput stream
  | ClientNew string nat string string
  | ClientStart
  | ClientStop
  | PrintTraceback exn

text \<open>
  What a spawned process does, as far as the module can observe it: whether \<^verbatim>\<open>Popen\<close>
  itself raises, whether the process has exited after the grace period (\<^verbatim>\<open>poll()\<close> is
  not \<^verbatim>\<open>None\<close>), the standard error text \<^verbatim>\<open>communicate()\<close> returns, the items the two
  reader threads of a \<^verbatim>\<open>MergedStream\<close> over its stdout and stderr put on the queue, in
  arrival order, and what \<^verbatim>\<open>kill()\<close> and \<^verbatim>\<open>wait()\<close> do.
\<close>

record proc_behaviour =
  spawn_error :: "exn option"
  exited :: bool
  stderr_text :: string
  arrivals :: "item list"
  kill_error :: "exn option"
  wait_outcome :: "unit result"

text \<open>A \<^verbatim>\<open>Popen\<close> object with the two attributes the module adds to it.\<close>

record proc =
  pid :: nat
  display :: "string option"
  port :: "nat option"

record client =
  sel_host :: string
  sel_port :: nat
  sel_browser :: string
  sel_base_url :: string
  sel_X :: "proc option"
  sel_selenium_server :: "proc option"

text \<open>Sleep durations are in milliseconds: \<^verbatim>\<open>time.sleep(0.5)\<close> is \<open>Sleep 500\<close>.\<close>

record world =
  trace :: "event list"
  environ :: "string \<rightharpoonup> string"
  rand :: "nat \<Rightarrow> nat"
  rand_ix :: nat
  behaviours :: "nat \<Rightarrow> proc_behaviour"
  next_pid :: nat
  client_start :: "nat \<Rightarrow> unit result"
  start_calls :: nat
  client_stop :: "unit result"

type_synonym 'a comp = "world \<Rightarrow> 'a result \<times> world"

definition ret :: "'a \<Rightarrow> 'a comp" where
  "ret a w = (Value a, w)"

definition raise :: "exn \<Rightarrow> 'a comp" where
  "raise e w = (Raise e, w)"

definition bindC :: "'a comp \<Rightarrow> ('a \<Rightarrow> 'b comp) \<Rightarrow> 'b comp" where
  "bindC m f w =
     (case m w of
        (Value a, w1) \<Rightarrow> f a w1
      | (Raise e, w1) \<Rightarrow> (Raise e, w1)
      | (Blocked, w1) \<Rightarrow> (Blocked, w1))"

text \<open>
  \<^verbatim>\<open>try: m finally: fin\<close>.  The \<^verbatim>\<open>finally\<close> block runs whenever \<open>m\<close> returns or
  raises; what it raises replaces the outcome of \<open>m\<close>; it does not run when \<open>m\<close> never
  returns.
\<close>

definition try_finally :: "'a comp \<Rightarrow> unit comp \<Rightarrow> 'a comp" where
  "try_finally m fin w =
     (case m w of
        (Blocked, w1) \<Rightarrow> (Blocked, w1)
      | (r, w1) \<Rightarrow>
          (case fin w1 of
             (Value u, w2) \<Rightarrow> (r, w2)
           | (Raise e, w2) \<Rightarrow> (Raise e, w2)
           | (Blocked, w2) \<Rightarrow> (Blocked, w2)))"

definition emit :: "event \<Rightarrow> unit comp" where
  "emit e w = (Value (), w\<lparr>trace := trace w @ [e]\<rparr>)"

definition info :: "string \<Rightarrow> pyval list \<Rightarrow> unit comp" where
  "info fmt args = emit (Info fmt args)"

definition debug :: "string \<Rightarrow> unit comp" where
  "debug s = emit (Debug s)"

definition sleep :: "nat \<Rightarrow> unit comp" where
  "sleep ms = emit (Sleep ms)"

definition log_output :: "stream \<Rightarrow> unit comp" where
  "log_output s = emit (LogOutput s)"

definition randint :: "nat \<Rightarrow> nat \<Rightarrow> nat comp" where
  "randint lo hi w =
     (let r = lo + rand w (rand_ix w) mod (hi - lo + 1)
      in (Value r, w\<lparr>rand_ix := Suc (rand_ix w), trace := trace w @ [RandInt lo hi r]\<rparr>))"

definition Popen :: "string list \<Rightarrow> string option \<Rightarrow> proc comp" where
  "Popen argv dsp w =
     (let p = next_pid w in
      case spawn_error (behaviours w p) of
        Some e \<Rightarrow> (Raise e, w\<lparr>trace := trace w @ [SpawnFailed argv]\<rparr>)
      | None \<Rightarrow> (Value \<lparr>pid = p, display = None, port = None\<rparr>,
                 w\<lparr>next_pid := Suc p, trace := trace w @ [Spawned p argv dsp]\<rparr>))"

definition poll :: "proc \<Rightarrow> bool comp" where
  "poll p w = (Value (exited (behaviours w (pid p))), w\<lparr>trace := trace w @ [Poll (pid p)]\<rparr>)"

definition communicate :: "proc \<Rightarrow> string comp" where
  "communicate p w =
     (Value (stderr_text (behaviours w (pid p))), w\<lparr>trace := trace w @ [Communicate (pid p)]\<rparr>)"

definition kill :: "proc \<Rightarrow> unit comp" where
  "kill p w =
     ((case kill_error (behaviours w (pid p)) of None \<Rightarrow> Value () | Some e \<Rightarrow> Raise e),
      w\<lparr>trace := trace w @ [Kill (pid p)]\<rparr>)"

definition wait :: "proc \<Rightarrow> unit comp" where
  "wait p w = (wait_outcome (behaviours w (pid p)), w\<lparr>trace := trace w @ [Wait (pid p)]\<rparr>)"

definition environ_lookup :: "string \<Rightarrow> string comp" where
  "environ_lookup k w =
     (case environ w k of None \<Rightarrow> (Raise (KeyError k), w) | Some v \<Rightarrow> (Value v, w))"

definition selenium_new :: "string \<Rightarrow> nat \<Rightarrow> string \<Rightarrow> string \<Rightarrow> client comp" where
  "selenium_new h p b u w =
     (Value \<lparr>sel_host = h, sel_port = p, sel_browser = b, sel_base_url = u,
             sel_X = None, sel_selenium_server = None\<rparr>,
      w\<lparr>trace := trace w @ [ClientNew h p b u]\<rparr>)"

definition sel_start :: "client \<Rightarrow> unit comp" where
  "sel_start sel w =
     (client_start w (start_calls w),
      w\<lparr>start_calls := Suc (start_calls w), trace := trace w @ [ClientStart]\<rparr>)"

definition sel_stop :: "client \<Rightarrow> unit comp" where
  "sel_stop sel w = (client_stop w, w\<lparr>trace := trace w @ [ClientStop]\<rparr>)"

section \<open>Strings\<close>

text \<open>\<^verbatim>\<open>sub in s\<close> on strings.\<close>

fun starts_with :: "string \<Rightarrow> string \<Rightarrow> bool" where
  "starts_with [] s = True"
| "starts_with (c # cs) [] = False"
| "starts_with (c # cs) (d # ds) = (c = d \<and> starts_with cs ds)"

fun py_in :: "string \<Rightarrow> string \<Rightarrow> bool" where
  "py_in sub [] = (sub = [])"
| "py_in sub (c # cs) = (starts_with sub (c # cs) \<or> py_in sub cs)"

text \<open>\<^verbatim>\<open>'%d' % n\<close> for a natural number.\<close>

fun decimal :: "nat \<Rightarrow> string" where
  "decimal n =
     (if n < 10 then [''0123456789'' ! n]
      else decimal (n div 10) @ [''0123456789'' ! (n mod 10)])"

declare decimal.simps [simp del]

section \<open>MergedStream\<close>

text \<open>
  \<^verbatim>\<open>MergedStream.readline\<close>, run on the consumer's list \<^verbatim>\<open>self.streams\<close> and on the items
  that arrive on the queue.  \<^verbatim>\<open>q.get()\<close> on a queue that stays empty never returns
  (\<open>WouldBlock\<close>); \<^verbatim>\<open>list.remove\<close> of an absent element raises \<^verbatim>\<open>ValueError\<close>.
\<close>

datatype rl_result = Got string | WouldBlock | Raises exn

fun readline :: "nat list \<Rightarrow> item list \<Rightarrow> rl_result \<times> nat list \<times> item list" where
  "readline [] q = (Got [], [], q)"
| "readline (s # ss) [] = (WouldBlock, s # ss, [])"
| "readline (s # ss) (Line l # q) = (Got l, s # ss, q)"
| "readline (s # ss) (Close c # q) =
     (if c \<in> set (s # ss) then readline (remove1 c (s # ss)) q
      else (Raises ValueError, s # ss, q))"


text \<open>
  The constructor and the reader threads.  Each thread runs \<^verbatim>\<open>stream_pusher\<close> on its own
  stream: it reads a line (\<^verbatim>\<open>stream.readline()\<close> gives the empty string at end of
  stream), then puts the line, or \<^verbatim>\<open>Close(stream)\<close> after an empty read, on the shared
  queue.  Reading and putting are separate steps, so that another thread can run in
  between.  The consumer calls \<^verbatim>\<open>readline\<close> again and again; \<open>out\<close> lists what the calls
  returned so far, and one step of the consumer is one pass of the loop in \<^verbatim>\<open>readline\<close>.
\<close>

datatype pusher = Reading "string list" | Putting string "string list" | Closing | Finished

fun stream_readline :: "string list \<Rightarrow> string \<times> string list" where
  "stream_readline [] = ([], [])"
| "stream_readline (l # ls) = (l, ls)"

fun pusher_step :: "nat \<Rightarrow> pusher \<Rightarrow> (pusher \<times> item list) option" where
  "pusher_step i (Reading ls) =
     (case stream_readline ls of
        (line, rest) \<Rightarrow> if line = [] then Some (Closing, []) else Some (Putting line rest, []))"
| "pusher_step i (Putting line rest) = Some (Reading rest, [Line line])"
| "pusher_step i Closing = Some (Finished, [Close i])"
| "pusher_step i Finished = None"

record mstate =
  pushers :: "pusher list"
  queue :: "item list"
  streams :: "nat list"
  out :: "string list"
  failed :: bool

definition MergedStream :: "string list list \<Rightarrow> mstate" where
  "MergedStream contents =
     \<lparr>pushers = map Reading contents, queue = [], streams = [0..<length contents],
      out = [], failed = False\<rparr>"

datatype task = Pusher nat | Consumer

text \<open>One step of a task; \<open>None\<close> when the task cannot run (a thread that has returned,
  the consumer blocked in \<^verbatim>\<open>q.get()\<close> or dead of a \<^verbatim>\<open>ValueError\<close>).\<close>

definition exec :: "task \<Rightarrow> mstate \<Rightarrow> mstate option" where
  "exec t s =
     (case t of
        Pusher i \<Rightarrow>
          if i < length (pushers s) then
            (case pusher_step i (pushers s ! i) of
               None \<Rightarrow> None
             | Some (p', put) \<Rightarrow>
                 Some (s\<lparr>pushers := (pushers s)[i := p'], queue := queue s @ put\<rparr>))
          else None
      | Consumer \<Rightarrow>
          if failed s then None
          else if streams s = [] then Some (s\<lparr>out := out s @ [[]]\<rparr>)
          else
            (case queue s of
               [] \<Rightarrow> None
             | Line l # q' \<Rightarrow> Some (s\<lparr>queue := q', out := out s @ [l]\<rparr>)
             | Close c # q' \<Rightarrow>
                 if c \<in> set (streams s)
                 then Some (s\<lparr>queue := q', streams := remove1 c (streams s)\<rparr>)
                 else Some (s\<lparr>queue := q', failed := True\<rparr>)))"

text \<open>An interleaving is a list of tasks, each of which can run when its turn comes.\<close>

fun run :: "task list \<Rightarrow> mstate \<Rightarrow> mstate option" where
  "run [] s = Some s"
| "run (t # ts) s = (case exec t s of None \<Rightarrow> None | Some s' \<Rightarrow> run ts s')"

section \<open>Scoped processes\<close>

text \<open>
  \<^verbatim>\<open>with with_proc(spawn, *args) as p: body\<close>.  The generator's \<^verbatim>\<open>yield p\<close> is the call of
  the body: an exception of the body is thrown into the generator at the \<^verbatim>\<open>yield\<close>, and
  both a body that runs to its end and one left by \<^verbatim>\<open>return\<close> resume the generator
  normally, so for both the body's outcome is a \<open>Value\<close>.
\<close>

definition with_proc :: "proc comp \<Rightarrow> (proc \<Rightarrow> 'a comp) \<Rightarrow> 'a comp" where
  "with_proc spawn body =
     bindC spawn (\<lambda>p. try_finally (body p) (try_finally (kill p) (wait p)))"

definition get_display :: "proc \<Rightarrow> string comp" where
  "get_display p = (case display p of None \<Rightarrow> raise (AttributeError ''display'') | Some d \<Rightarrow> ret d)"

definition get_port :: "proc \<Rightarrow> nat comp" where
  "get_port p = (case port p of None \<Rightarrow> raise (AttributeError ''port'') | Some n \<Rightarrow> ret n)"

section \<open>The launchers\<close>

definition pick_random_display :: "string comp" where
  "pick_random_display = bindC (randint 1 400) (\<lambda>n. ret (CHR '':'' # decimal n))"

definition pick_random_port :: "nat comp" where
  "pick_random_port = randint 1025 65535"

text \<open>\<^verbatim>\<open>start_headless_x\<close>: the loop \<^verbatim>\<open>for _ in range(10)\<close> with the attempts left as
  counter; the \<^verbatim>\<open>else\<close> of the loop is the case \<open>0\<close>.  \<^verbatim>\<open>display if display else ...\<close>
  tests truth, so \<^verbatim>\<open>None\<close> and the empty string both go to the allocator.\<close>

fun start_headless_x_loop :: "nat \<Rightarrow> string option \<Rightarrow> proc comp" where
  "start_headless_x_loop 0 dsp =
     raise (Exception ''Failed to find a free display when spawning headless X'' [])"
| "start_headless_x_loop (Suc n) dsp =
     bindC (case dsp of
              Some d \<Rightarrow> if d \<noteq> [] then ret d else pick_random_display
            | None \<Rightarrow> pick_random_display) (\<lambda>chosen_display.
     bindC (Popen [''Xvfb'', chosen_display, ''-ac''] None) (\<lambda>p.
     let headless_x = p\<lparr>display := Some chosen_display\<rparr> in
     bindC (sleep 500) (\<lambda>_.
     bindC (poll headless_x) (\<lambda>has_exited.
       if has_exited then
         bindC (communicate headless_x) (\<lambda>err.
           if py_in ''Server is already active'' err then
             bindC (info ''Server already running on %r.Retrying on different display''
                      [Str chosen_display]) (\<lambda>_.
             start_headless_x_loop n dsp)
           else raise (Exception ''Xvfb failed to start :%r'' [Str err]))
       else
         bindC (info ''Brought up headless X on display %r with pid %r''
                  [Str chosen_display, Num (pid headless_x)]) (\<lambda>_.
         bindC (log_output (Stderr (pid headless_x))) (\<lambda>_.
         bindC (log_output (Stdout (pid headless_x))) (\<lambda>_.
         ret headless_x)))))))"

definition start_headless_x :: "string option \<Rightarrow> proc comp" where
  "start_headless_x dsp = start_headless_x_loop 10 dsp"

text \<open>\<^verbatim>\<open>wait_for_selenium_start\<close>: the \<^verbatim>\<open>while True\<close> loop over the merged stream.\<close>

function wait_for_selenium_start_loop :: "proc \<Rightarrow> nat list \<Rightarrow> item list \<Rightarrow> bool comp" where
  "wait_for_selenium_start_loop p ss q w =
     (case readline ss q of
        (WouldBlock, ss1, q1) \<Rightarrow> (Blocked, w)
      | (Raises e, ss1, q1) \<Rightarrow> (Raise e, w)
      | (Got line, ss1, q1) \<Rightarrow>
          (case debug line w of
             (r, w1) \<Rightarrow>
               if line = [] then raise (Exception ''Selenium server failed to start'' []) w1
               else if py_in ''Started SocketListener on'' line then
                 bindC (log_output (Merged (pid p))) (\<lambda>_.
                 bindC (get_port p) (\<lambda>n.
                 bindC (info ''Selenium server listening on %r with pid %r''
                          [Num n, Num (pid p)]) (\<lambda>_.
                 ret True))) w1
               else if py_in ''Selenium is already running on port'' line then
                 bindC (get_port p) (\<lambda>n.
                 bindC (info ''Selenium is already running on port %r. Retrying on different port''
                          [Num n]) (\<lambda>_.
                 bindC (log_output (Merged (pid p))) (\<lambda>_.
                 bindC (wait p) (\<lambda>_.
                 ret False)))) w1
               else wait_for_selenium_start_loop p ss1 q1 w1))"
  by pat_completeness auto
termination
proof (relation "measure (\<lambda>(p, ss, q, w). length q)")
  show "wf (measure (\<lambda>(p, ss, q, w). length q))"
    by simp
next
  fix p :: proc and ss ss1 :: "nat list" and q q1 :: "item list" and w w1 :: world
    and x :: rl_result and y :: "nat list \<times> item list" and line :: string and r :: "unit result"
  assume rl: "(x, y) = readline ss q" "(ss1, q1) = y" "x = Got line" and ne: "line \<noteq> []"
  have shrink: "readline ss' q' = (Got l, ss2, q2) \<Longrightarrow> l \<noteq> [] \<Longrightarrow> length q2 < length q'"
    for ss' q' l ss2 q2
    by (induction ss' q' rule: readline.induct) (auto split: if_splits)
  from rl have "readline ss q = (Got line, ss1, q1)"
    by simp
  from shrink [OF this ne]
  show "((p, ss1, q1, w1), (p, ss, q, w)) \<in> measure (\<lambda>(p, ss, q, w). length q)"
    by simp
qed

declare wait_for_selenium_start_loop.simps [simp del]

definition wait_for_selenium_start :: "proc \<Rightarrow> bool comp" where
  "wait_for_selenium_start sel_server w =
     wait_for_selenium_start_loop sel_server [0..<2] (arrivals (behaviours w (pid sel_server))) w"

text \<open>\<^verbatim>\<open>start_selenium_server\<close>.\<close>

fun start_selenium_server_loop :: "nat \<Rightarrow> string \<Rightarrow> proc comp" where
  "start_selenium_server_loop 0 dsp = raise (Exception ''Failed to start selenium server'' [])"
| "start_selenium_server_loop (Suc n) dsp =
     bindC (info ''Bringing up selenium'' []) (\<lambda>_.
     bindC pick_random_port (\<lambda>pt.
     bindC (environ_lookup ''SELENIUM_SERVER_JAR'') (\<lambda>jar.
     bindC (Popen [''java'', ''-jar'', jar, ''-port'', decimal pt] (Some dsp)) (\<lambda>p.
     let sel_server = p\<lparr>port := Some pt\<rparr> in
     bindC (wait_for_selenium_start sel_server) (\<lambda>started.
       if started then ret sel_server
       else start_selenium_server_loop n dsp)))))"

definition start_selenium_server :: "string \<Rightarrow> proc comp" where
  "start_selenium_server dsp = start_selenium_server_loop 10 dsp"

text \<open>\<^verbatim>\<open>start_selenium\<close>: \<^verbatim>\<open>try: sel.start() except Exception: ... else: break\<close>, ten times.\<close>

fun start_selenium_loop :: "nat \<Rightarrow> client \<Rightarrow> unit comp" where
  "start_selenium_loop 0 sel w = raise (Exception ''Selenium failed to start'' []) w"
| "start_selenium_loop (Suc n) sel w =
     (case sel_start sel w of
        (Value u, w1) \<Rightarrow> (Value (), w1)
      | (Raise e, w1) \<Rightarrow>
          if isinstance_Exception e then
            bindC (info ''Failed to start selenium client retrying...'' []) (\<lambda>_.
            bindC (emit (PrintTraceback e)) (\<lambda>_.
            bindC (sleep 2000) (\<lambda>_.
            start_selenium_loop n sel))) w1
          else (Raise e, w1)
      | (Blocked, w1) \<Rightarrow> (Blocked, w1))"

definition start_selenium :: "client \<Rightarrow> unit comp" where
  "start_selenium sel = start_selenium_loop 10 sel"

section \<open>The session\<close>

definition with_selenium :: "string \<Rightarrow> (client \<Rightarrow> 'a comp) \<Rightarrow> 'a comp" where
  "with_selenium base_url body =
     with_proc (start_headless_x None) (\<lambda>X.
       bindC (get_display X) (\<lambda>d.
       with_proc (start_selenium_server d) (\<lambda>server.
         bindC (get_port server) (\<lambda>pt.
         bindC (selenium_new ''localhost'' pt ''*chrome'' base_url) (\<lambda>sel0.
         bindC (start_selenium sel0) (\<lambda>_.
         let sel = sel0\<lparr>sel_X := Some X, sel_selenium_server := Some server\<rparr> in
         try_finally (body sel) (sel_stop sel)))))))"

text \<open>Loading the module runs its top-level statements: the imports, the creation of the
  logger, and the function definitions.  None of them reads \<^verbatim>\<open>os.environ\<close>.\<close>

definition import_selscrape :: "unit comp" where
  "import_selscrape = ret ()"

section \<open>Notions used in the statements\<close>

text \<open>The choice of the display at the head of the loop of \<^verbatim>\<open>start_headless_x\<close>.\<close>

abbreviation choose_display :: "string option \<Rightarrow> string comp" where
  "choose_display dsp \<equiv>
     (case dsp of
        Some d \<Rightarrow> if d \<noteq> [] then ret d else pick_random_display
      | None \<Rightarrow> pick_random_display)"

text \<open>The display server exits within the grace period and reports that its display is
  in use.\<close>

definition display_collision :: "proc_behaviour \<Rightarrow> bool" where
  "display_collision b =
     (spawn_error b = None \<and> exited b \<and> py_in ''Server is already active'' (stderr_text b))"

text \<open>An item the loop of \<^verbatim>\<open>wait_for_selenium_start\<close> reacts to: a close notification, or
  a line that is empty or holds the ready signal or the collision signal.\<close>

fun marked :: "item \<Rightarrow> bool" where
  "marked (Close c) = True"
| "marked (Line l) =
     (l = [] \<or> py_in ''Started SocketListener on'' l \<or>
      py_in ''Selenium is already running on port'' l)"

text \<open>What the loop does once \<^verbatim>\<open>readline\<close> has given it an item it reacts to.\<close>

definition verdict :: "proc \<Rightarrow> world \<Rightarrow> rl_result \<Rightarrow> bool result" where
  "verdict p w x =
     (case x of
        WouldBlock \<Rightarrow> Blocked
      | Raises e \<Rightarrow> Raise e
      | Got l \<Rightarrow>
          if l = [] then Raise (Exception ''Selenium server failed to start'' [])
          else
            (case port p of
               None \<Rightarrow> Raise (AttributeError ''port'')
             | Some n \<Rightarrow>
                 if py_in ''Started SocketListener on'' l then Value True
                 else
                   (case wait_outcome (behaviours w (pid p)) of
                      Value u \<Rightarrow> Value False
                    | Raise e \<Rightarrow> Raise e
                    | Blocked \<Rightarrow> Blocked)))"

text \<open>The lines a reader thread still has to deliver, the lines on the queue, and the
  number of steps the tasks still have to take before the end marker is returned.\<close>

fun pending :: "pusher \<Rightarrow> string list" where
  "pending (Reading ls) = ls"
| "pending (Putting l rest) = l # rest"
| "pending Closing = []"
| "pending Finished = []"

fun queue_lines :: "item list \<Rightarrow> string list" where
  "queue_lines [] = []"
| "queue_lines (Line l # q) = l # queue_lines q"
| "queue_lines (Close c # q) = queue_lines q"

fun pusher_cost :: "pusher \<Rightarrow> nat" where
  "pusher_cost (Reading ls) = 3 * length ls + 3"
| "pusher_cost (Putting l rest) = 3 * length rest + 5"
| "pusher_cost Closing = 2"
| "pusher_cost Finished = 0"

definition cost :: "mstate \<Rightarrow> nat" where
  "cost s = sum_list (map pusher_cost (pushers s)) + length (queue s) +
            (if [] \<in> set (out s) then 0 else 1)"

text \<open>The invariant of the merged stream over streams with the given contents.\<close>

definition inv :: "string list list \<Rightarrow> mstate \<Rightarrow> bool" where
  "inv contents s =
     (\<not> failed s \<and>
      (\<forall>i. count_list (streams s) i =
             (if i < length (pushers s) \<and> pushers s ! i \<noteq> Finished then 1 else 0) +
             count_list (queue s) (Close i)) \<and>
      mset (filter (\<lambda>l. l \<noteq> []) (out s)) + mset (queue_lines (queue s)) +
        sum_list (map (\<lambda>p. mset (pending p)) (pushers s)) = mset (concat contents) \<and>
      ((\<forall>p \<in> set (pushers s). p = Finished) \<longrightarrow>
         queue s = [] \<or> (\<exists>c. last (queue s) = Close c)) \<and>
      ([] \<in> set (out s) \<longrightarrow> streams s = []) \<and>
      filter (\<lambda>l. l \<noteq> []) (out s) = takeWhile (\<lambda>l. l \<noteq> []) (out s))"

section \<open>Concrete worlds and interleavings\<close>

text \<open>A process that starts, keeps running and prints nothing, and a world in which every
  process is like that, the environment is empty and the client starts at once.\<close>

definition quiet :: proc_behaviour where
  "quiet = \<lparr>spawn_error = None, exited = False, stderr_text = [], arrivals = [],
            kill_error = None, wait_outcome = Value ()\<rparr>"

definition world0 :: world where
  "world0 = \<lparr>trace = [], environ = Map.empty, rand = (\<lambda>_. 0), rand_ix = 0,
             behaviours = (\<lambda>_. quiet), next_pid = 0, client_start = (\<lambda>_. Value ()),
             start_calls = 0, client_stop = Value ()\<rparr>"

definition client0 :: client where
  "client0 = \<lparr>sel_host = ''localhost'', sel_port = 4444, sel_browser = ''*chrome'',
              sel_base_url = ''http://www.google.com'', sel_X = None, sel_selenium_server = None\<rparr>"

text \<open>The client's \<^verbatim>\<open>start\<close> is interrupted from the keyboard; it is refused by the server
  every time.\<close>

definition world_interrupt :: world where
  "world_interrupt = world0\<lparr>client_start := (\<lambda>_. Raise KeyboardInterrupt)\<rparr>"

definition world_refused :: world where
  "world_refused = world0\<lparr>client_start := (\<lambda>_. Raise (OtherException ''socket.error''))\<rparr>"

text \<open>The client's \<^verbatim>\<open>start\<close> is refused twice and then calls \<^verbatim>\<open>sys.exit\<close>.\<close>

definition world_exit :: world where
  "world_exit =
     world0\<lparr>client_start :=
       (\<lambda>k. if k < 2 then Raise (OtherException ''socket.error'') else Raise SystemExit)\<rparr>"

text \<open>A display server that finds its display in use; worlds in which every display
  server does, and in which only the first one does.\<close>

definition occupied :: proc_behaviour where
  "occupied = quiet\<lparr>exited := True,
     stderr_text := ''Fatal server error: Server is already active for display 73''\<rparr>"

definition world_occupied :: world where
  "world_occupied = world0\<lparr>behaviours := (\<lambda>_. occupied)\<rparr>"

definition world_occupied_once :: world where
  "world_occupied_once = world0\<lparr>behaviours := (\<lambda>k. if k = 0 then occupied else quiet)\<rparr>"

text \<open>Worlds in which every Selenium server finds its port in use: one without the path
  of the jar in the environment, one in which \<^verbatim>\<open>wait()\<close> on the server raises, and one with
  the path of the jar.\<close>

definition world_busy_port :: world where
  "world_busy_port = world0\<lparr>behaviours := (\<lambda>_. quiet\<lparr>arrivals :=
      [Line ''INFO - Java: Sun Microsystems'', Line ''Selenium is already running on port 4444'',
       Close 0, Close 1]\<rparr>)\<rparr>"

definition world_wait_fails :: world where
  "world_wait_fails = world0\<lparr>behaviours := (\<lambda>_. quiet\<lparr>arrivals :=
      [Line ''INFO - Java: Sun Microsystems'', Line ''Selenium is already running on port 4444'',
       Close 0, Close 1],
      wait_outcome := Raise (OSError ''[Errno 10] No child processes'')\<rparr>)\<rparr>"

definition world_busy_ports :: world where
  "world_busy_ports =
     world_busy_port\<lparr>environ := [''SELENIUM_SERVER_JAR'' \<mapsto> ''/opt/selenium-server.jar'']\<rparr>"

text \<open>A Selenium server that reports it is listening, and a world in which the display
  server (process 0) and the Selenium server (process 1) both come up.\<close>

definition selenium_ready :: proc_behaviour where
  "selenium_ready = quiet\<lparr>arrivals := [Line ''INFO - Started SocketListener on 0.0.0.0:1025'']\<rparr>"

definition world_ok :: world where
  "world_ok = world0\<lparr>behaviours := (\<lambda>k. if k = 0 then quiet else selenium_ready),
      environ := [''SELENIUM_SERVER_JAR'' \<mapsto> ''/opt/selenium-server.jar'']\<rparr>"

text \<open>Two streams of one line each, and an interleaving of their reader threads with the
  consumer that runs until the end marker has been returned.\<close>

definition demo_interleaving :: "task list" where
  "demo_interleaving =
     [Pusher 1, Pusher 0, Pusher 0, Pusher 1, Consumer, Pusher 0, Pusher 0, Consumer,
      Consumer, Pusher 1, Pusher 1, Consumer, Consumer]"

text \<open>One stream without lines; its reader thread closes it, and the consumer calls
  \<^verbatim>\<open>readline\<close> until it has the end marker, and once more.\<close>

definition demo_read_past_end :: "task list" where
  "demo_read_past_end = [Pusher 0, Pusher 0, Consumer, Consumer, Consumer]"

section \<open>Scoped processes are killed, then reaped\<close>

text \<open>
  Claim C2.  Once \<^verbatim>\<open>with_proc\<close> has acquired a process handle \<open>p\<close>, then whatever way the
  body leaves the scope (with a value, which covers normal completion and \<^verbatim>\<open>return\<close>, or
  with an exception), and whatever \<^verbatim>\<open>p.kill()\<close> and \<^verbatim>\<open>p.wait()\<close> do, the world at the
  end of the scope is the world the body left with exactly two calls appended:
  \<^verbatim>\<open>p.kill()\<close>, then \<^verbatim>\<open>p.wait()\<close>.  In particular \<^verbatim>\<open>p.wait()\<close> is called when \<^verbatim>\<open>p.kill()\<close>
  raises.
\<close>

theorem with_proc_kill_then_wait:
  assumes "spawn w = (Value p, w1)" and "body p w1 = (r, w2)" and "r \<noteq> Blocked"
  shows "\<exists>r'. with_proc spawn body w = (r', w2\<lparr>trace := trace w2 @ [Kill (pid p), Wait (pid p)]\<rparr>)"
  using assms
  by (cases r; cases "kill_error (behaviours w2 (pid p))"; cases "wait_outcome (behaviours w2 (pid p))")
     (simp_all add: with_proc_def bindC_def try_finally_def kill_def wait_def)

text \<open>The witness: the body raises and \<^verbatim>\<open>kill\<close> raises too.\<close>

theorem with_proc_kill_then_wait_witness:
  "\<exists>r'. with_proc (Popen [''Xvfb''] None) (\<lambda>p. raise (OtherException ''Borken'') :: unit comp)
       (world0\<lparr>behaviours := (\<lambda>_. quiet\<lparr>kill_error := Some (OSError ''No such process'')\<rparr>)\<rparr>)
     = (r', world0\<lparr>behaviours := (\<lambda>_. quiet\<lparr>kill_error := Some (OSError ''No such process'')\<rparr>),
                  next_pid := 1,
                  trace := [Spawned 0 [''Xvfb''] None, Kill 0, Wait 0]\<rparr>)"
  using with_proc_kill_then_wait [of "Popen [''Xvfb''] None"
      "world0\<lparr>behaviours := (\<lambda>_. quiet\<lparr>kill_error := Some (OSError ''No such process'')\<rparr>)\<rparr>"
      "\<lparr>pid = 0, display = None, port = None\<rparr>"
      "world0\<lparr>behaviours := (\<lambda>_. quiet\<lparr>kill_error := Some (OSError ''No such process'')\<rparr>),
               next_pid := 1, trace := [Spawned 0 [''Xvfb''] None]\<rparr>"
      "\<lambda>p. raise (OtherException ''Borken'')" "Raise (OtherException ''Borken'')"
      "world0\<lparr>behaviours := (\<lambda>_. quiet\<lparr>kill_error := Some (OSError ''No such process'')\<rparr>),
               next_pid := 1, trace := [Spawned 0 [''Xvfb''] None]\<rparr>"]
  by (simp add: Popen_def world0_def quiet_def raise_def)

section \<open>A missing SELENIUM_SERVER_JAR\<close>

lemma missing_jar_loop:
  assumes "environ w ''SELENIUM_SERVER_JAR'' = None"
  shows "start_selenium_server_loop (Suc n) dsp w =
           (Raise (KeyError ''SELENIUM_SERVER_JAR''),
            w\<lparr>rand_ix := Suc (rand_ix w),
              trace := trace w @ [Info ''Bringing up selenium'' [],
                                  RandInt 1025 65535 (1025 + rand w (rand_ix w) mod 64511)]\<rparr>)"
  using assms
  by (simp add: bindC_def info_def emit_def pick_random_port_def randint_def
      environ_lookup_def Let_def)

text \<open>
  Claim C7.  When \<^verbatim>\<open>SELENIUM_SERVER_JAR\<close> is not in the environment, loading the module
  succeeds and changes nothing, and \<^verbatim>\<open>start_selenium_server\<close> raises \<^verbatim>\<open>KeyError\<close> in its
  first pass: one port has been picked, no process has been spawned, and the loop does
  not go round again.
\<close>

theorem missing_jar_is_launch_time_error:
  assumes "environ w ''SELENIUM_SERVER_JAR'' = None"
  shows "import_selscrape w = (Value (), w) \<and>
         start_selenium_server dsp w =
           (Raise (KeyError ''SELENIUM_SERVER_JAR''),
            w\<lparr>rand_ix := Suc (rand_ix w),
              trace := trace w @ [Info ''Bringing up selenium'' [],
                                  RandInt 1025 65535 (1025 + rand w (rand_ix w) mod 64511)]\<rparr>)"
  using missing_jar_loop [OF assms, of 9 dsp]
  by (simp add: import_selscrape_def ret_def start_selenium_server_def)

theorem missing_jar_is_launch_time_error_witness:
  "environ world0 ''SELENIUM_SERVER_JAR'' = None \<and>
   import_selscrape world0 = (Value (), world0) \<and>
   start_selenium_server '':7'' world0 =
     (Raise (KeyError ''SELENIUM_SERVER_JAR''),
      world0\<lparr>rand_ix := 1,
        trace := [Info ''Bringing up selenium'' [], RandInt 1025 65535 1025]\<rparr>)"
  using missing_jar_is_launch_time_error [of world0 "'':7''"]
  by (simp add: world0_def)

section \<open>A MergedStream over no stream\<close>

text \<open>
  Claim C8.  A \<^verbatim>\<open>MergedStream\<close> built over no stream has an empty list of streams, so the
  consumer's first step returns the empty string; \<^verbatim>\<open>readline\<close> returns it whatever the
  queue holds and leaves the queue alone, so it does not wait on the queue.
\<close>

theorem empty_merged_stream_eof:
  "streams (MergedStream []) = [] \<and> queue (MergedStream []) = [] \<and>
   exec Consumer (MergedStream []) = Some ((MergedStream [])\<lparr>out := [[]]\<rparr>) \<and>
   readline (streams (MergedStream [])) q = (Got [], [], q)"
  by (simp add: exec_def MergedStream_def)

section \<open>Starting the client\<close>

lemma start_selenium_loop_ok:
  "client_start w (start_calls w) = Value u \<Longrightarrow>
   start_selenium_loop (Suc n) sel w =
     (Value (), w\<lparr>start_calls := Suc (start_calls w), trace := trace w @ [ClientStart]\<rparr>)"
  by (simp add: sel_start_def)

lemma start_selenium_loop_blocked:
  "client_start w (start_calls w) = Blocked \<Longrightarrow>
   start_selenium_loop (Suc n) sel w =
     (Blocked, w\<lparr>start_calls := Suc (start_calls w), trace := trace w @ [ClientStart]\<rparr>)"
  by (simp add: sel_start_def)

lemma start_selenium_loop_uncaught:
  "client_start w (start_calls w) = Raise e \<Longrightarrow> \<not> isinstance_Exception e \<Longrightarrow>
   start_selenium_loop (Suc n) sel w =
     (Raise e, w\<lparr>start_calls := Suc (start_calls w), trace := trace w @ [ClientStart]\<rparr>)"
  by (simp add: sel_start_def)

lemma start_selenium_loop_caught:
  "client_start w (start_calls w) = Raise e \<Longrightarrow> isinstance_Exception e \<Longrightarrow>
   start_selenium_loop (Suc n) sel w =
     start_selenium_loop n sel
       (w\<lparr>start_calls := Suc (start_calls w),
          trace := trace w @ [ClientStart, Info ''Failed to start selenium client retrying...'' [],
                              PrintTraceback e, Sleep 2000]\<rparr>)"
  by (simp add: sel_start_def bindC_def info_def emit_def sleep_def)

lemma start_selenium_loop_0:
  "start_selenium_loop 0 sel w = (Raise (Exception ''Selenium failed to start'' []), w)"
  by (simp add: raise_def)

declare start_selenium_loop.simps [simp del]

lemma start_selenium_loop_exhausted:
  "\<forall>k<n. \<exists>e. client_start w (start_calls w + k) = Raise e \<and> isinstance_Exception e \<Longrightarrow>
   fst (start_selenium_loop n sel w) = Raise (Exception ''Selenium failed to start'' []) \<and>
   start_calls (snd (start_selenium_loop n sel w)) = start_calls w + n \<and>
   length (filter (\<lambda>ev. ev = Sleep 2000) (trace (snd (start_selenium_loop n sel w)))) =
     length (filter (\<lambda>ev. ev = Sleep 2000) (trace w)) + n"
proof (induction n arbitrary: w)
  case 0
  show ?case by (simp add: start_selenium_loop_0)
next
  case (Suc n)
  from Suc.prems obtain e where e: "client_start w (start_calls w) = Raise e" "isinstance_Exception e"
    by force
  let ?w = "w\<lparr>start_calls := Suc (start_calls w),
          trace := trace w @ [ClientStart, Info ''Failed to start selenium client retrying...'' [],
                              PrintTraceback e, Sleep 2000]\<rparr>"
  have "\<forall>k<n. \<exists>e. client_start ?w (start_calls ?w + k) = Raise e \<and> isinstance_Exception e"
    using Suc.prems by force
  from Suc.IH [OF this] show ?case
    by (simp add: start_selenium_loop_caught [OF e])
qed

lemma start_selenium_loop_only_exhausted:
  "fst (start_selenium_loop n sel w) = Raise x \<Longrightarrow> isinstance_Exception x \<Longrightarrow>
   x = Exception ''Selenium failed to start'' [] \<and>
   (\<forall>k<n. \<exists>e. client_start w (start_calls w + k) = Raise e \<and> isinstance_Exception e)"
proof (induction n arbitrary: w)
  case 0
  then show ?case by (simp add: start_selenium_loop_0)
next
  case (Suc n)
  show ?case
  proof (cases "client_start w (start_calls w)")
    case (Value u)
    with Suc.prems show ?thesis by (simp add: start_selenium_loop_ok)
  next
    case Blocked
    with Suc.prems show ?thesis by (simp add: start_selenium_loop_blocked)
  next
    case (Raise e)
    show ?thesis
    proof (cases "isinstance_Exception e")
      case False
      with Raise Suc.prems show ?thesis by (simp add: start_selenium_loop_uncaught)
    next
      case True
      let ?w = "w\<lparr>start_calls := Suc (start_calls w),
          trace := trace w @ [ClientStart, Info ''Failed to start selenium client retrying...'' [],
                              PrintTraceback e, Sleep 2000]\<rparr>"
      from Suc.prems have "fst (start_selenium_loop n sel ?w) = Raise x"
        by (simp add: start_selenium_loop_caught [OF Raise True])
      from Suc.IH [OF this Suc.prems(2)]
      have x: "x = Exception ''Selenium failed to start'' []"
        and rest: "\<forall>k<n. \<exists>e. client_start w (Suc (start_calls w + k)) = Raise e \<and> isinstance_Exception e"
        by simp_all
      have "\<exists>e. client_start w (start_calls w + k) = Raise e \<and> isinstance_Exception e"
        if "k < Suc n" for k
      proof (cases k)
        case 0
        with Raise True show ?thesis by simp
      next
        case (Suc j)
        with that rest show ?thesis by simp
      qed
      with x show ?thesis by blast
    qed
  qed
qed

lemma start_selenium_loop_propagates:
  "k < n \<Longrightarrow>
   \<forall>j<k. \<exists>x. client_start w (start_calls w + j) = Raise x \<and> isinstance_Exception x \<Longrightarrow>
   client_start w (start_calls w + k) = Raise e \<Longrightarrow> \<not> isinstance_Exception e \<Longrightarrow>
   fst (start_selenium_loop n sel w) = Raise e \<and>
   start_calls (snd (start_selenium_loop n sel w)) = start_calls w + Suc k \<and>
   length (filter (\<lambda>ev. ev = Sleep 2000) (trace (snd (start_selenium_loop n sel w)))) =
     length (filter (\<lambda>ev. ev = Sleep 2000) (trace w)) + k"
proof (induction k arbitrary: n w)
  case 0
  then obtain m where n: "n = Suc m"
    by (cases n) simp_all
  from 0 show ?case
    unfolding n by (simp add: start_selenium_loop_uncaught)
next
  case (Suc k)
  then obtain m where n: "n = Suc m" and m: "k < m"
    by (cases n) simp_all
  from Suc.prems(2) obtain x where x: "client_start w (start_calls w) = Raise x"
      "isinstance_Exception x"
    by force
  let ?w = "w\<lparr>start_calls := Suc (start_calls w),
          trace := trace w @ [ClientStart, Info ''Failed to start selenium client retrying...'' [],
                              PrintTraceback x, Sleep 2000]\<rparr>"
  have caught: "\<forall>j<k. \<exists>x. client_start ?w (start_calls ?w + j) = Raise x \<and> isinstance_Exception x"
    using Suc.prems(2) by force
  have last: "client_start ?w (start_calls ?w + k) = Raise e"
    using Suc.prems(3) by simp
  from Suc.IH [OF m caught last Suc.prems(4)] show ?case
    unfolding n by (simp add: start_selenium_loop_caught [OF x])
qed

text \<open>
  Claim C10, as amended.  \<^verbatim>\<open>start_selenium\<close> retries \<^verbatim>\<open>sel.start()\<close> on every exception that
  is an instance of \<^verbatim>\<open>Exception\<close>, whatever its class below that: after such a failure it
  logs, prints the traceback, sleeps 2 seconds and goes on with one attempt less.  An
  exception that is not an instance of \<^verbatim>\<open>Exception\<close> is not retried: in whichever pass
  \<^verbatim>\<open>sel.start()\<close> raises it, it leaves the loop at once, with no log and no sleep, and
  \<^verbatim>\<open>start_selenium\<close> raises it after the sleeps of the earlier failures only.  Ten failures
  of the first kind in a row end in \<^verbatim>\<open>Exception('Selenium failed to start')\<close>, after ten
  calls of \<^verbatim>\<open>sel.start()\<close> and ten sleeps, and that failure is raised in no other case.
\<close>

theorem start_selenium_retries_on_Exception:
  "(client_start w (start_calls w) = Raise e \<and> isinstance_Exception e \<longrightarrow>
      start_selenium_loop (Suc n) sel w =
        start_selenium_loop n sel
          (w\<lparr>start_calls := Suc (start_calls w),
             trace := trace w @ [ClientStart, Info ''Failed to start selenium client retrying...'' [],
                                 PrintTraceback e, Sleep 2000]\<rparr>)) \<and>
   (client_start w (start_calls w) = Raise e \<and> \<not> isinstance_Exception e \<longrightarrow>
      start_selenium_loop (Suc n) sel w =
        (Raise e, w\<lparr>start_calls := Suc (start_calls w), trace := trace w @ [ClientStart]\<rparr>)) \<and>
   (k < 10 \<and>
    (\<forall>j<k. \<exists>x. client_start w (start_calls w + j) = Raise x \<and> isinstance_Exception x) \<and>
    client_start w (start_calls w + k) = Raise e \<and> \<not> isinstance_Exception e \<longrightarrow>
      fst (start_selenium sel w) = Raise e \<and>
      start_calls (snd (start_selenium sel w)) = start_calls w + Suc k \<and>
      length (filter (\<lambda>ev. ev = Sleep 2000) (trace (snd (start_selenium sel w)))) =
        length (filter (\<lambda>ev. ev = Sleep 2000) (trace w)) + k) \<and>
   ((\<forall>k<10. \<exists>x. client_start w (start_calls w + k) = Raise x \<and> isinstance_Exception x) \<longrightarrow>
      fst (start_selenium sel w) = Raise (Exception ''Selenium failed to start'' []) \<and>
      start_calls (snd (start_selenium sel w)) = start_calls w + 10 \<and>
      length (filter (\<lambda>ev. ev = Sleep 2000) (trace (snd (start_selenium sel w)))) =
        length (filter (\<lambda>ev. ev = Sleep 2000) (trace w)) + 10) \<and>
   (fst (start_selenium sel w) = Raise (Exception ''Selenium failed to start'' []) \<longrightarrow>
      (\<forall>k<10. \<exists>x. client_start w (start_calls w + k) = Raise x \<and> isinstance_Exception x))"
proof -
  have A: "start_selenium_loop (Suc n) sel w =
        start_selenium_loop n sel
          (w\<lparr>start_calls := Suc (start_calls w),
             trace := trace w @ [ClientStart, Info ''Failed to start selenium client retrying...'' [],
                                 PrintTraceback e, Sleep 2000]\<rparr>)"
    if "client_start w (start_calls w) = Raise e \<and> isinstance_Exception e"
    using that by (simp add: start_selenium_loop_caught)
  have B: "start_selenium_loop (Suc n) sel w =
        (Raise e, w\<lparr>start_calls := Suc (start_calls w), trace := trace w @ [ClientStart]\<rparr>)"
    if "client_start w (start_calls w) = Raise e \<and> \<not> isinstance_Exception e"
    using that by (simp add: start_selenium_loop_uncaught)
  have C: "fst (start_selenium sel w) = Raise e \<and>
      start_calls (snd (start_selenium sel w)) = start_calls w + Suc k \<and>
      length (filter (\<lambda>ev. ev = Sleep 2000) (trace (snd (start_selenium sel w)))) =
        length (filter (\<lambda>ev. ev = Sleep 2000) (trace w)) + k"
    if "k < 10 \<and>
      (\<forall>j<k. \<exists>x. client_start w (start_calls w + j) = Raise x \<and> isinstance_Exception x) \<and>
      client_start w (start_calls w + k) = Raise e \<and> \<not> isinstance_Exception e"
    using start_selenium_loop_propagates [of k 10 w e sel] that
    by (simp add: start_selenium_def)
  have D: "fst (start_selenium sel w) = Raise (Exception ''Selenium failed to start'' []) \<and>
      start_calls (snd (start_selenium sel w)) = start_calls w + 10 \<and>
      length (filter (\<lambda>ev. ev = Sleep 2000) (trace (snd (start_selenium sel w)))) =
        length (filter (\<lambda>ev. ev = Sleep 2000) (trace w)) + 10"
    if a: "\<forall>k<10. \<exists>x. client_start w (start_calls w + k) = Raise x \<and> isinstance_Exception x"
    using start_selenium_loop_exhausted [OF a, of sel] by (simp add: start_selenium_def)
  have E: "\<forall>k<10. \<exists>x. client_start w (start_calls w + k) = Raise x \<and> isinstance_Exception x"
    if "fst (start_selenium sel w) = Raise (Exception ''Selenium failed to start'' [])"
  proof -
    from that
    have "fst (start_selenium_loop 10 sel w) = Raise (Exception ''Selenium failed to start'' [])"
      by (simp add: start_selenium_def)
    from start_selenium_loop_only_exhausted [OF this] show ?thesis
      by simp
  qed
  from A have A': "client_start w (start_calls w) = Raise e \<and> isinstance_Exception e \<longrightarrow>
      start_selenium_loop (Suc n) sel w =
        start_selenium_loop n sel
          (w\<lparr>start_calls := Suc (start_calls w),
             trace := trace w @ [ClientStart, Info ''Failed to start selenium client retrying...'' [],
                                 PrintTraceback e, Sleep 2000]\<rparr>)"
    by (rule impI)
  from B have B': "client_start w (start_calls w) = Raise e \<and> \<not> isinstance_Exception e \<longrightarrow>
      start_selenium_loop (Suc n) sel w =
        (Raise e, w\<lparr>start_calls := Suc (start_calls w), trace := trace w @ [ClientStart]\<rparr>)"
    by (rule impI)
  from C have C': "k < 10 \<and>
    (\<forall>j<k. \<exists>x. client_start w (start_calls w + j) = Raise x \<and> isinstance_Exception x) \<and>
    client_start w (start_calls w + k) = Raise e \<and> \<not> isinstance_Exception e \<longrightarrow>
      fst (start_selenium sel w) = Raise e \<and>
      start_calls (snd (start_selenium sel w)) = start_calls w + Suc k \<and>
      length (filter (\<lambda>ev. ev = Sleep 2000) (trace (snd (start_selenium sel w)))) =
        length (filter (\<lambda>ev. ev = Sleep 2000) (trace w)) + k"
    by (rule impI)
  from D have D': "(\<forall>k<10. \<exists>x. client_start w (start_calls w + k) = Raise x \<and> isinstance_Exception x) \<longrightarrow>
      fst (start_selenium sel w) = Raise (Exception ''Selenium failed to start'' []) \<and>
      start_calls (snd (start_selenium sel w)) = start_calls w + 10 \<and>
      length (filter (\<lambda>ev. ev = Sleep 2000) (trace (snd (start_selenium sel w)))) =
        length (filter (\<lambda>ev. ev = Sleep 2000) (trace w)) + 10"
    by (rule impI)
  from E have E': "fst (start_selenium sel w) = Raise (Exception ''Selenium failed to start'' []) \<longrightarrow>
      (\<forall>k<10. \<exists>x. client_start w (start_calls w + k) = Raise x \<and> isinstance_Exception x)"
    by (rule impI)
  show ?thesis
    by (intro conjI; fact A' B' C' D' E')
qed

text \<open>The client is refused ten times; and it is refused twice and then exits.\<close>

theorem start_selenium_retries_on_Exception_witness:
  "client_start world_refused (start_calls world_refused) = Raise (OtherException ''socket.error'') \<and>
   isinstance_Exception (OtherException ''socket.error'') \<and>
   fst (start_selenium client0 world_refused) = Raise (Exception ''Selenium failed to start'' []) \<and>
   start_calls (snd (start_selenium client0 world_refused)) = 10 \<and>
   length (filter (\<lambda>ev. ev = Sleep 2000) (trace (snd (start_selenium client0 world_refused)))) = 10 \<and>
   client_start world_exit 2 = Raise SystemExit \<and>
   fst (start_selenium client0 world_exit) = Raise SystemExit \<and>
   start_calls (snd (start_selenium client0 world_exit)) = 3 \<and>
   length (filter (\<lambda>ev. ev = Sleep 2000) (trace (snd (start_selenium client0 world_exit)))) = 2"
proof -
  have r: "\<forall>k<10. \<exists>x. client_start world_refused (start_calls world_refused + k) = Raise x \<and>
      isinstance_Exception x"
    by (simp add: world_refused_def world0_def)
  have z: "start_calls world_refused = 0" "trace world_refused = []"
    "start_calls world_exit = 0" "trace world_exit = []"
    by (simp_all add: world_refused_def world_exit_def world0_def)
  have first: "client_start world_refused (start_calls world_refused) =
      Raise (OtherException ''socket.error'')"
    by (simp add: world_refused_def world0_def)
  have x: "(2::nat) < 10 \<and>
      (\<forall>j<2. \<exists>x. client_start world_exit (start_calls world_exit + j) = Raise x \<and>
         isinstance_Exception x) \<and>
      client_start world_exit (start_calls world_exit + 2) = Raise SystemExit \<and>
      \<not> isinstance_Exception SystemExit"
    by (simp add: world_exit_def world0_def)
  from start_selenium_retries_on_Exception
    [of world_refused "OtherException ''socket.error''" 9 client0 0] r
  have ten: "fst (start_selenium client0 world_refused) =
      Raise (Exception ''Selenium failed to start'' []) \<and>
      start_calls (snd (start_selenium client0 world_refused)) = start_calls world_refused + 10 \<and>
      length (filter (\<lambda>ev. ev = Sleep 2000) (trace (snd (start_selenium client0 world_refused)))) =
        length (filter (\<lambda>ev. ev = Sleep 2000) (trace world_refused)) + 10"
    by blast
  from start_selenium_retries_on_Exception [of world_exit SystemExit 9 client0 2] x
  have exit: "fst (start_selenium client0 world_exit) = Raise SystemExit \<and>
      start_calls (snd (start_selenium client0 world_exit)) = start_calls world_exit + Suc 2 \<and>
      length (filter (\<lambda>ev. ev = Sleep 2000) (trace (snd (start_selenium client0 world_exit)))) =
        length (filter (\<lambda>ev. ev = Sleep 2000) (trace world_exit)) + 2"
    by blast
  have "client_start world_exit 2 = Raise SystemExit"
    by (simp add: world_exit_def world0_def)
  with first ten exit show ?thesis
    unfolding z by simp
qed

text \<open>
  An exception that is not an instance of \<^verbatim>\<open>Exception\<close> is not caught by
  \<^verbatim>\<open>except Exception\<close>: a \<^verbatim>\<open>KeyboardInterrupt\<close> in the first \<^verbatim>\<open>sel.start()\<close> leaves
  \<^verbatim>\<open>start_selenium\<close> at once, with no retry and no sleep.
\<close>

theorem start_selenium_interrupt_counterexample:
  "start_selenium client0 world_interrupt =
     (Raise KeyboardInterrupt, world_interrupt\<lparr>start_calls := 1, trace := [ClientStart]\<rparr>)"
  using start_selenium_loop_uncaught [of world_interrupt KeyboardInterrupt 9 client0]
  by (simp add: start_selenium_def world_interrupt_def world0_def)

section \<open>Waiting for the Selenium server\<close>

lemma wait_loop_no_streams:
  "wait_for_selenium_start_loop p [] q w =
     (Raise (Exception ''Selenium server failed to start'' []), w\<lparr>trace := trace w @ [Debug []]\<rparr>)"
  by (subst wait_for_selenium_start_loop.simps) (simp add: debug_def emit_def raise_def)

lemma wait_loop_empty_queue:
  "wait_for_selenium_start_loop p (s # ss) [] w = (Blocked, w)"
  by (subst wait_for_selenium_start_loop.simps) simp

lemma wait_loop_close:
  "c \<in> set (s # ss) \<Longrightarrow>
   wait_for_selenium_start_loop p (s # ss) (Close c # q) w =
     wait_for_selenium_start_loop p (remove1 c (s # ss)) q w"
  by (subst wait_for_selenium_start_loop.simps,
      subst (2) wait_for_selenium_start_loop.simps) simp

lemma wait_loop_close_absent:
  "c \<notin> set (s # ss) \<Longrightarrow>
   wait_for_selenium_start_loop p (s # ss) (Close c # q) w = (Raise ValueError, w)"
  by (subst wait_for_selenium_start_loop.simps) simp

lemma wait_loop_skip:
  "\<not> marked (Line l) \<Longrightarrow>
   wait_for_selenium_start_loop p (s # ss) (Line l # q) w =
     wait_for_selenium_start_loop p (s # ss) q (w\<lparr>trace := trace w @ [Debug l]\<rparr>)"
  by (subst wait_for_selenium_start_loop.simps) (simp add: debug_def emit_def)

lemma wait_loop_marked_line:
  "marked (Line l) \<Longrightarrow>
   fst (wait_for_selenium_start_loop p (s # ss) (Line l # q) w) = verdict p w (Got l)"
  by (subst wait_for_selenium_start_loop.simps)
     (auto simp: debug_def emit_def raise_def bindC_def log_output_def get_port_def info_def
        ret_def wait_def verdict_def split: option.splits result.splits)

lemma wait_loop_verdict:
  "fst (wait_for_selenium_start_loop p ss q w) =
     verdict p w (fst (readline ss (filter marked q)))"
proof (induction q arbitrary: ss w)
  case Nil
  show ?case
    by (cases ss) (simp_all add: wait_loop_no_streams wait_loop_empty_queue verdict_def)
next
  case (Cons it q)
  show ?case
  proof (cases ss)
    case Nil
    then show ?thesis
      by (simp add: wait_loop_no_streams verdict_def)
  next
    case ss: (Cons s ss')
    show ?thesis
    proof (cases it)
      case (Close c)
      show ?thesis
      proof (cases "c \<in> set (s # ss')")
        case True
        with Cons.IH [of "remove1 c (s # ss')" w] show ?thesis
          unfolding ss Close by (simp only: wait_loop_close filter.simps marked.simps readline.simps if_True)
      next
        case False
        then show ?thesis
          unfolding ss Close by (simp add: wait_loop_close_absent verdict_def)
      qed
    next
      case (Line l)
      show ?thesis
      proof (cases "marked (Line l)")
        case True
        then show ?thesis
          unfolding ss Line by (simp only: wait_loop_marked_line filter.simps readline.simps if_True fst_conv)
      next
        case False
        have "verdict p (w\<lparr>trace := trace w @ [Debug l]\<rparr>) = verdict p w"
          by (rule ext) (simp add: verdict_def split: rl_result.splits option.splits)
        moreover have "filter marked (Line l # q) = filter marked q"
          using False by (simp del: marked.simps)
        moreover note Cons.IH [of "s # ss'" "w\<lparr>trace := trace w @ [Debug l]\<rparr>"]
          wait_loop_skip [OF False, of p s ss' q w]
        ultimately show ?thesis
          unfolding ss Line by (simp del: marked.simps)
      qed
    qed
  qed
qed

lemma wait_loop_collision:
  assumes "l \<noteq> []" and "\<not> py_in ''Started SocketListener on'' l"
    and "py_in ''Selenium is already running on port'' l" and "port p = Some n"
  shows "wait_for_selenium_start_loop p (s # ss) (Line l # q) w =
     ((case wait_outcome (behaviours w (pid p)) of
         Value u \<Rightarrow> Value False | Raise e \<Rightarrow> Raise e | Blocked \<Rightarrow> Blocked),
      w\<lparr>trace := trace w @
          [Debug l,
           Info ''Selenium is already running on port %r. Retrying on different port'' [Num n],
           LogOutput (Merged (pid p)), Wait (pid p)]\<rparr>)"
  using assms
  by (subst wait_for_selenium_start_loop.simps)
     (simp add: debug_def emit_def bindC_def log_output_def get_port_def info_def ret_def
        wait_def split: result.splits)

lemma readline_returns_queued_line:
  "readline ss q = (Got l, ss1, q1) \<Longrightarrow> l \<noteq> [] \<Longrightarrow> Line l \<in> set q"
  by (induction ss q rule: readline.induct) (auto split: if_splits)

lemma readline_filtered_marked:
  assumes "fst (readline ss (filter marked q)) = Got l" and "l \<noteq> []"
  shows "py_in ''Started SocketListener on'' l \<or> py_in ''Selenium is already running on port'' l"
proof -
  obtain ss1 q1 where "readline ss (filter marked q) = (Got l, ss1, q1)"
    using assms(1) by (cases "readline ss (filter marked q)") simp
  from readline_returns_queued_line [OF this assms(2)] have "marked (Line l)"
    by simp
  with assms(2) show ?thesis
    by simp
qed

text \<open>
  Claim C9, as amended.  In \<^verbatim>\<open>wait_for_selenium_start\<close> a line that is not empty and holds
  neither the ready signal nor the collision signal is logged and skipped: the loop goes
  on with the rest of the queue, and its outcome is the same when all such lines are taken
  out of the queue.  The outcome is decided by what \<^verbatim>\<open>readline\<close> gives once those lines are
  out of the way, and the loop ends in these ways only: \<^verbatim>\<open>readline\<close> blocks for ever; the
  end marker raises the startup failure; the ready signal returns \<^verbatim>\<open>True\<close>; the collision
  signal leads to \<^verbatim>\<open>sel_server.wait()\<close>, and then to \<^verbatim>\<open>False\<close> when that call returns, to
  its exception when it raises, and to no return when it hangs; an exception raised in
  \<^verbatim>\<open>readline\<close> comes through; and a handle without the attribute \<^verbatim>\<open>port\<close> raises
  \<^verbatim>\<open>AttributeError\<close> on either signal.
\<close>

theorem wait_for_selenium_start_skips_other_lines:
  "(l \<noteq> [] \<and> \<not> py_in ''Started SocketListener on'' l \<and>
    \<not> py_in ''Selenium is already running on port'' l \<longrightarrow>
      wait_for_selenium_start_loop p (s # ss) (Line l # q) w =
        wait_for_selenium_start_loop p (s # ss) q (w\<lparr>trace := trace w @ [Debug l]\<rparr>)) \<and>
   fst (wait_for_selenium_start_loop p ts qs w) =
     fst (wait_for_selenium_start_loop p ts (filter marked qs) w) \<and>
   (fst (readline ts (filter marked qs)) = WouldBlock \<longrightarrow>
      fst (wait_for_selenium_start_loop p ts qs w) = Blocked) \<and>
   (fst (readline ts (filter marked qs)) = Raises e \<longrightarrow>
      fst (wait_for_selenium_start_loop p ts qs w) = Raise e) \<and>
   (fst (readline ts (filter marked qs)) = Got [] \<longrightarrow>
      fst (wait_for_selenium_start_loop p ts qs w) =
        Raise (Exception ''Selenium server failed to start'' [])) \<and>
   (fst (readline ts (filter marked qs)) = Got m \<and> m \<noteq> [] \<and> port p = None \<longrightarrow>
      fst (wait_for_selenium_start_loop p ts qs w) = Raise (AttributeError ''port'')) \<and>
   (fst (readline ts (filter marked qs)) = Got m \<and> m \<noteq> [] \<and> port p = Some n \<and>
    py_in ''Started SocketListener on'' m \<longrightarrow>
      fst (wait_for_selenium_start_loop p ts qs w) = Value True) \<and>
   (fst (readline ts (filter marked qs)) = Got m \<and> m \<noteq> [] \<and> port p = Some n \<and>
    \<not> py_in ''Started SocketListener on'' m \<longrightarrow>
      py_in ''Selenium is already running on port'' m \<and>
      fst (wait_for_selenium_start_loop p ts qs w) =
        (case wait_outcome (behaviours w (pid p)) of
           Value u \<Rightarrow> Value False | Raise x \<Rightarrow> Raise x | Blocked \<Rightarrow> Blocked)) \<and>
   (port p = Some n \<longrightarrow>
      fst (wait_for_selenium_start_loop p ts qs w) = Blocked \<or>
      fst (wait_for_selenium_start_loop p ts qs w) =
        Raise (Exception ''Selenium server failed to start'' []) \<or>
      fst (wait_for_selenium_start_loop p ts qs w) = Value True \<or>
      fst (wait_for_selenium_start_loop p ts qs w) = Value False \<or>
      (\<exists>x. fst (wait_for_selenium_start_loop p ts qs w) = Raise x \<and>
           (wait_outcome (behaviours w (pid p)) = Raise x \<or>
            fst (readline ts (filter marked qs)) = Raises x)))"
proof -
  let ?r = "fst (wait_for_selenium_start_loop p ts qs w)"
  let ?x = "fst (readline ts (filter marked qs))"
  note v = wait_loop_verdict [of p ts qs w]
  have skip: "l \<noteq> [] \<and> \<not> py_in ''Started SocketListener on'' l \<and>
    \<not> py_in ''Selenium is already running on port'' l \<longrightarrow>
      wait_for_selenium_start_loop p (s # ss) (Line l # q) w =
        wait_for_selenium_start_loop p (s # ss) q (w\<lparr>trace := trace w @ [Debug l]\<rparr>)"
  proof
    assume "l \<noteq> [] \<and> \<not> py_in ''Started SocketListener on'' l \<and>
      \<not> py_in ''Selenium is already running on port'' l"
    then have "\<not> marked (Line l)"
      by simp
    then show "wait_for_selenium_start_loop p (s # ss) (Line l # q) w =
        wait_for_selenium_start_loop p (s # ss) q (w\<lparr>trace := trace w @ [Debug l]\<rparr>)"
      by (rule wait_loop_skip)
  qed
  have same: "?r = fst (wait_for_selenium_start_loop p ts (filter marked qs) w)"
    by (simp add: wait_loop_verdict)
  have blk: "?x = WouldBlock \<longrightarrow> ?r = Blocked"
    using v by (simp add: verdict_def)
  have rse: "?x = Raises e \<longrightarrow> ?r = Raise e"
    using v by (simp add: verdict_def)
  have eof: "?x = Got [] \<longrightarrow> ?r = Raise (Exception ''Selenium server failed to start'' [])"
    using v by (simp add: verdict_def)
  have att: "?x = Got m \<and> m \<noteq> [] \<and> port p = None \<longrightarrow> ?r = Raise (AttributeError ''port'')"
    using v by (simp add: verdict_def)
  have rdy: "?x = Got m \<and> m \<noteq> [] \<and> port p = Some n \<and> py_in ''Started SocketListener on'' m \<longrightarrow>
      ?r = Value True"
    using v by (simp add: verdict_def)
  have col: "?x = Got m \<and> m \<noteq> [] \<and> port p = Some n \<and>
      \<not> py_in ''Started SocketListener on'' m \<longrightarrow>
      py_in ''Selenium is already running on port'' m \<and>
      ?r = (case wait_outcome (behaviours w (pid p)) of
           Value u \<Rightarrow> Value False | Raise x \<Rightarrow> Raise x | Blocked \<Rightarrow> Blocked)"
    using v readline_filtered_marked [of ts qs m] by (auto simp: verdict_def)
  have lst: "port p = Some n \<longrightarrow>
      ?r = Blocked \<or> ?r = Raise (Exception ''Selenium server failed to start'' []) \<or>
      ?r = Value True \<or> ?r = Value False \<or>
      (\<exists>x. ?r = Raise x \<and>
           (wait_outcome (behaviours w (pid p)) = Raise x \<or> ?x = Raises x))"
    unfolding v by (auto simp: verdict_def split: rl_result.splits result.splits)
  show ?thesis
    by (intro conjI; fact skip same blk rse eof att rdy col lst)
qed

text \<open>A line of no interest is skipped, and the collision signal behind it returns \<^verbatim>\<open>False\<close>.\<close>

theorem wait_for_selenium_start_skips_other_lines_witness:
  "''INFO - Java: Sun Microsystems'' \<noteq> [] \<and>
   \<not> py_in ''Started SocketListener on'' ''INFO - Java: Sun Microsystems'' \<and>
   \<not> py_in ''Selenium is already running on port'' ''INFO - Java: Sun Microsystems'' \<and>
   wait_for_selenium_start \<lparr>pid = 0, display = None, port = Some 4444\<rparr> world_busy_port =
     wait_for_selenium_start_loop \<lparr>pid = 0, display = None, port = Some 4444\<rparr> [0, 1]
       [Line ''Selenium is already running on port 4444'', Close 0, Close 1]
       (world_busy_port\<lparr>trace := [Debug ''INFO - Java: Sun Microsystems'']\<rparr>) \<and>
   fst (wait_for_selenium_start \<lparr>pid = 0, display = None, port = Some 4444\<rparr> world_busy_port) =
     Value False"
proof -
  let ?p = "\<lparr>pid = 0, display = None, port = Some 4444\<rparr>"
  let ?l = "''INFO - Java: Sun Microsystems''"
  let ?m = "''Selenium is already running on port 4444''"
  let ?q = "[Line ?m, Close 0, Close 1]"
  note T = wait_for_selenium_start_skips_other_lines
    [where l = ?l and p = ?p and s = 0 and ss = "[1]" and q = ?q and w = world_busy_port
       and ts = "[0, 1]" and qs = "Line ?l # ?q" and m = ?m and n = 4444]
  have prem: "?l \<noteq> [] \<and> \<not> py_in ''Started SocketListener on'' ?l \<and>
      \<not> py_in ''Selenium is already running on port'' ?l"
    by simp
  have tr: "trace world_busy_port = []"
    by (simp add: world_busy_port_def world0_def)
  from T prem have skip:
    "wait_for_selenium_start_loop ?p [0, 1] (Line ?l # ?q) world_busy_port =
     wait_for_selenium_start_loop ?p [0, 1] ?q (world_busy_port\<lparr>trace := [Debug ?l]\<rparr>)"
    unfolding tr append_Nil by blast
  have rl: "fst (readline [0, 1] (filter marked (Line ?l # ?q))) = Got ?m \<and> ?m \<noteq> [] \<and>
      port ?p = Some 4444 \<and> \<not> py_in ''Started SocketListener on'' ?m"
    by simp
  with T have v:
    "fst (wait_for_selenium_start_loop ?p [0, 1] (Line ?l # ?q) world_busy_port) =
     (case wait_outcome (behaviours world_busy_port (pid ?p)) of
        Value u \<Rightarrow> Value False | Raise x \<Rightarrow> Raise x | Blocked \<Rightarrow> Blocked)"
    by blast
  have wo: "wait_outcome (behaviours world_busy_port (pid ?p)) = Value ()"
    by (simp add: world_busy_port_def world0_def quiet_def)
  have start: "wait_for_selenium_start ?p world_busy_port =
      wait_for_selenium_start_loop ?p [0, 1] (Line ?l # ?q) world_busy_port"
    by (simp add: wait_for_selenium_start_def world_busy_port_def world0_def quiet_def upt_rec)
  from v have "fst (wait_for_selenium_start_loop ?p [0, 1] (Line ?l # ?q) world_busy_port) =
      Value False"
    unfolding wo by simp
  with prem skip show ?thesis
    unfolding start by blast
qed

text \<open>
  The loop has a fourth way out: the server reports its port in use, \<^verbatim>\<open>sel_server.wait()\<close>
  raises, and \<^verbatim>\<open>wait_for_selenium_start\<close> leaves with that exception, which is neither the
  startup failure nor a returned \<^verbatim>\<open>True\<close> or \<^verbatim>\<open>False\<close>.
\<close>

theorem wait_for_selenium_start_wait_raises_counterexample:
  "wait_for_selenium_start \<lparr>pid = 0, display = None, port = Some 4444\<rparr> world_wait_fails =
     (Raise (OSError ''[Errno 10] No child processes''),
      world_wait_fails\<lparr>trace :=
        [Debug ''INFO - Java: Sun Microsystems'',
         Debug ''Selenium is already running on port 4444'',
         Info ''Selenium is already running on port %r. Retrying on different port'' [Num 4444],
         LogOutput (Merged 0), Wait 0]\<rparr>)"
proof -
  let ?p = "\<lparr>pid = 0, display = None, port = Some 4444\<rparr>"
  have skip: "\<not> marked (Line ''INFO - Java: Sun Microsystems'')"
    by simp
  have start: "wait_for_selenium_start ?p world_wait_fails =
      wait_for_selenium_start_loop ?p [0, 1]
        [Line ''INFO - Java: Sun Microsystems'', Line ''Selenium is already running on port 4444'',
         Close 0, Close 1] world_wait_fails"
    by (simp add: wait_for_selenium_start_def world_wait_fails_def world0_def quiet_def upt_rec)
  show ?thesis
    unfolding start wait_loop_skip [OF skip]
    by (subst wait_loop_collision [where n = 4444])
       (simp_all add: world_wait_fails_def world0_def quiet_def)
qed

section \<open>Launching the display server\<close>

lemma choose_display_explicit:
  "d \<noteq> [] \<Longrightarrow> choose_display (Some d) w = (Value d, w)"
  by (simp add: ret_def)

lemma pick_random_display_eq:
  "pick_random_display w =
     (Value (CHR '':'' # decimal (1 + rand w (rand_ix w) mod 400)),
      w\<lparr>rand_ix := Suc (rand_ix w),
        trace := trace w @ [RandInt 1 400 (1 + rand w (rand_ix w) mod 400)]\<rparr>)"
  by (simp add: pick_random_display_def bindC_def randint_def ret_def Let_def)

lemma choose_display_frame:
  "\<exists>c w0. choose_display dsp w = (Value c, w0) \<and> behaviours w0 = behaviours w \<and>
     next_pid w0 = next_pid w \<and> rand_ix w0 \<le> Suc (rand_ix w) \<and>
     (dsp = None \<longrightarrow> rand_ix w0 = Suc (rand_ix w)) \<and>
     (\<forall>d. dsp = Some d \<and> d \<noteq> [] \<longrightarrow> c = d \<and> w0 = w)"
  by (cases dsp) (simp_all add: pick_random_display_eq ret_def)

lemma headless_x_attempt:
  assumes "choose_display dsp w = (Value c, w0)"
  shows "start_headless_x_loop (Suc n) dsp w =
     (case spawn_error (behaviours w0 (next_pid w0)) of
        Some e \<Rightarrow> (Raise e, w0\<lparr>trace := trace w0 @ [SpawnFailed [''Xvfb'', c, ''-ac'']]\<rparr>)
      | None \<Rightarrow>
          if exited (behaviours w0 (next_pid w0)) then
            if py_in ''Server is already active'' (stderr_text (behaviours w0 (next_pid w0))) then
              start_headless_x_loop n dsp
                (w0\<lparr>next_pid := Suc (next_pid w0),
                    trace := trace w0 @
                      [Spawned (next_pid w0) [''Xvfb'', c, ''-ac''] None, Sleep 500,
                       Poll (next_pid w0), Communicate (next_pid w0),
                       Info ''Server already running on %r.Retrying on different display''
                         [Str c]]\<rparr>)
            else
              (Raise (Exception ''Xvfb failed to start :%r''
                        [Str (stderr_text (behaviours w0 (next_pid w0)))]),
               w0\<lparr>next_pid := Suc (next_pid w0),
                   trace := trace w0 @
                     [Spawned (next_pid w0) [''Xvfb'', c, ''-ac''] None, Sleep 500,
                      Poll (next_pid w0), Communicate (next_pid w0)]\<rparr>)
          else
            (Value \<lparr>pid = next_pid w0, display = Some c, port = None\<rparr>,
             w0\<lparr>next_pid := Suc (next_pid w0),
                 trace := trace w0 @
                   [Spawned (next_pid w0) [''Xvfb'', c, ''-ac''] None, Sleep 500,
                    Poll (next_pid w0),
                    Info ''Brought up headless X on display %r with pid %r''
                      [Str c, Num (next_pid w0)],
                    LogOutput (Stderr (next_pid w0)), LogOutput (Stdout (next_pid w0))]\<rparr>))"
  using assms
  by (simp add: bindC_def Popen_def sleep_def poll_def communicate_def info_def emit_def
      log_output_def raise_def ret_def Let_def split: option.splits)

lemma headless_x_loop_0:
  "start_headless_x_loop 0 dsp w =
     (Raise (Exception ''Failed to find a free display when spawning headless X'' []), w)"
  by (simp add: raise_def)

text \<open>An explicit display that is the empty string is treated like \<^verbatim>\<open>None\<close>.\<close>

lemma headless_x_empty_display:
  "start_headless_x_loop n (Some []) = start_headless_x_loop n None"
  by (induction n) (simp_all add: Let_def cong: if_cong)

declare start_headless_x_loop.simps [simp del]

lemma headless_x_loop_bounds:
  "rand_ix (snd (start_headless_x_loop n dsp w)) \<le> rand_ix w + n \<and>
   next_pid (snd (start_headless_x_loop n dsp w)) \<le> next_pid w + n \<and>
   behaviours (snd (start_headless_x_loop n dsp w)) = behaviours w"
proof (induction n arbitrary: w)
  case 0
  show ?case by (simp add: headless_x_loop_0)
next
  case (Suc n)
  from choose_display_frame [of dsp w] obtain c w0 where
    ch: "choose_display dsp w = (Value c, w0)" and fr: "behaviours w0 = behaviours w"
      "next_pid w0 = next_pid w" "rand_ix w0 \<le> Suc (rand_ix w)"
    by blast
  let ?w1 = "w0\<lparr>next_pid := Suc (next_pid w0),
                    trace := trace w0 @
                      [Spawned (next_pid w0) [''Xvfb'', c, ''-ac''] None, Sleep 500,
                       Poll (next_pid w0), Communicate (next_pid w0),
                       Info ''Server already running on %r.Retrying on different display''
                         [Str c]]\<rparr>"
  from Suc.IH [of ?w1] fr
  have "rand_ix (snd (start_headless_x_loop n dsp ?w1)) \<le> rand_ix w + Suc n"
    and "next_pid (snd (start_headless_x_loop n dsp ?w1)) \<le> next_pid w + Suc n"
    and "behaviours (snd (start_headless_x_loop n dsp ?w1)) = behaviours w"
    by simp_all
  with fr show ?case
    unfolding headless_x_attempt [OF ch]
    by (simp split: option.splits)
qed

lemma headless_x_loop_exhausted:
  "\<forall>k<n. display_collision (behaviours w (next_pid w + k)) \<Longrightarrow>
   fst (start_headless_x_loop n dsp w) =
     Raise (Exception ''Failed to find a free display when spawning headless X'' []) \<and>
   next_pid (snd (start_headless_x_loop n dsp w)) = next_pid w + n \<and>
   (dsp = None \<longrightarrow> rand_ix (snd (start_headless_x_loop n dsp w)) = rand_ix w + n)"
proof (induction n arbitrary: w)
  case 0
  show ?case by (simp add: headless_x_loop_0)
next
  case (Suc n)
  from choose_display_frame [of dsp w] obtain c w0 where
    ch: "choose_display dsp w = (Value c, w0)" and fr: "behaviours w0 = behaviours w"
      "next_pid w0 = next_pid w" "dsp = None \<longrightarrow> rand_ix w0 = Suc (rand_ix w)"
    by blast
  let ?w1 = "w0\<lparr>next_pid := Suc (next_pid w0),
                    trace := trace w0 @
                      [Spawned (next_pid w0) [''Xvfb'', c, ''-ac''] None, Sleep 500,
                       Poll (next_pid w0), Communicate (next_pid w0),
                       Info ''Server already running on %r.Retrying on different display''
                         [Str c]]\<rparr>"
  from Suc.prems have first: "display_collision (behaviours w (next_pid w))"
    by force
  have "\<forall>k<n. display_collision (behaviours ?w1 (next_pid ?w1 + k))"
    using Suc.prems fr by force
  from Suc.IH [OF this] fr
  have "fst (start_headless_x_loop n dsp ?w1) =
          Raise (Exception ''Failed to find a free display when spawning headless X'' [])"
    and "next_pid (snd (start_headless_x_loop n dsp ?w1)) = next_pid w + Suc n"
    and "dsp = None \<longrightarrow> rand_ix (snd (start_headless_x_loop n dsp ?w1)) = rand_ix w + Suc n"
    by simp_all
  with first fr show ?case
    unfolding headless_x_attempt [OF ch]
    by (simp add: display_collision_def)
qed

text \<open>With an explicit display that is not the empty string the allocator is never called,
  and every server is spawned on that display.\<close>

lemma headless_x_loop_explicit:
  assumes "d \<noteq> []"
  shows "rand_ix (snd (start_headless_x_loop n (Some d) w)) = rand_ix w \<and>
   (\<exists>evs. trace (snd (start_headless_x_loop n (Some d) w)) = trace w @ evs \<and>
      (\<forall>k argv e. Spawned k argv e \<in> set evs \<longrightarrow> argv = [''Xvfb'', d, ''-ac'']) \<and>
      (\<forall>lo hi r. RandInt lo hi r \<notin> set evs))"
proof (induction n arbitrary: w)
  case 0
  show ?case by (simp add: headless_x_loop_0)
next
  case (Suc n)
  have ch: "choose_display (Some d) w = (Value d, w)"
    using assms by (rule choose_display_explicit)
  let ?evs1 = "[Spawned (next_pid w) [''Xvfb'', d, ''-ac''] None, Sleep 500,
                       Poll (next_pid w), Communicate (next_pid w),
                       Info ''Server already running on %r.Retrying on different display''
                         [Str d]]"
  let ?w1 = "w\<lparr>next_pid := Suc (next_pid w), trace := trace w @ ?evs1\<rparr>"
  from Suc.IH [of ?w1] obtain evs where
    r: "rand_ix (snd (start_headless_x_loop n (Some d) ?w1)) = rand_ix w" and
    t: "trace (snd (start_headless_x_loop n (Some d) ?w1)) = trace w @ ?evs1 @ evs" and
    sp: "\<forall>k argv e. Spawned k argv e \<in> set evs \<longrightarrow> argv = [''Xvfb'', d, ''-ac'']" and
    ri: "\<forall>lo hi r. RandInt lo hi r \<notin> set evs"
    by auto
  have retry: "\<exists>evs. trace (snd (start_headless_x_loop n (Some d) ?w1)) = trace w @ evs \<and>
      (\<forall>k argv e. Spawned k argv e \<in> set evs \<longrightarrow> argv = [''Xvfb'', d, ''-ac'']) \<and>
      (\<forall>lo hi r. RandInt lo hi r \<notin> set evs)"
    using t sp ri by (intro exI [of _ "?evs1 @ evs"]) auto
  show ?case
    unfolding headless_x_attempt [OF ch]
    using r retry by (simp split: option.splits)
qed

text \<open>With an explicit display that every server finds in use, each round of the loop spawns
  a server on that same display and logs a retry \<^emph>\<open>on different display\<close>.\<close>

lemma headless_x_loop_explicit_collisions:
  assumes "d \<noteq> []"
  shows "\<forall>k<n. display_collision (behaviours w (next_pid w + k)) \<Longrightarrow>
   start_headless_x_loop n (Some d) w =
     (Raise (Exception ''Failed to find a free display when spawning headless X'' []),
      w\<lparr>next_pid := next_pid w + n,
        trace := trace w @
          concat (map (\<lambda>k. [Spawned k [''Xvfb'', d, ''-ac''] None, Sleep 500, Poll k,
                Communicate k,
                Info ''Server already running on %r.Retrying on different display'' [Str d]])
            [next_pid w ..< next_pid w + n])\<rparr>)"
proof (induction n arbitrary: w)
  case 0
  show ?case by (simp add: headless_x_loop_0)
next
  case (Suc n)
  have ch: "choose_display (Some d) w = (Value d, w)"
    using assms by (rule choose_display_explicit)
  let ?evs1 = "[Spawned (next_pid w) [''Xvfb'', d, ''-ac''] None, Sleep 500,
                       Poll (next_pid w), Communicate (next_pid w),
                       Info ''Server already running on %r.Retrying on different display''
                         [Str d]]"
  let ?w1 = "w\<lparr>next_pid := Suc (next_pid w), trace := trace w @ ?evs1\<rparr>"
  from Suc.prems have first: "display_collision (behaviours w (next_pid w))"
    by force
  have "\<forall>k<n. display_collision (behaviours ?w1 (next_pid ?w1 + k))"
    using Suc.prems by force
  from Suc.IH [OF this]
  have rest: "start_headless_x_loop n (Some d) ?w1 =
     (Raise (Exception ''Failed to find a free display when spawning headless X'' []),
      w\<lparr>next_pid := next_pid w + Suc n,
        trace := trace w @ ?evs1 @
          concat (map (\<lambda>k. [Spawned k [''Xvfb'', d, ''-ac''] None, Sleep 500, Poll k,
                Communicate k,
                Info ''Server already running on %r.Retrying on different display'' [Str d]])
            [Suc (next_pid w) ..< next_pid w + Suc n])\<rparr>)"
    by simp
  have split: "[next_pid w ..< next_pid w + Suc n] =
      next_pid w # [Suc (next_pid w) ..< next_pid w + Suc n]"
    by (rule upt_conv_Cons) simp
  from first rest show ?case
    unfolding headless_x_attempt [OF ch] split
    by (simp add: display_collision_def)
qed

text \<open>
  Claim C3.  The claim: called with an explicit display that the spawned server reports in
  use, \<^verbatim>\<open>start_headless_x\<close> fails on that first collision, without a retry.  The function
  departs from it.  Its loop has no case for an explicit display; on a collision it logs
  \<^verbatim>\<open>Retrying on different display\<close> and goes round again, where
  \<^verbatim>\<open>display if display else pick_random_display()\<close> gives the same display once more.  Asked
  for \<^verbatim>\<open>:73\<close> when the first server finds it in use and the second does not, the call logs the
  retry, spawns the second server on \<^verbatim>\<open>:73\<close> and returns it.  Asked for \<^verbatim>\<open>:73\<close> when every
  server finds it in use, the call spawns ten servers on \<^verbatim>\<open>:73\<close>, logging a retry on a
  different display after each, and then raises
  \<^verbatim>\<open>Failed to find a free display when spawning headless X\<close>.
\<close>

theorem start_headless_x_explicit_collision_is_retried:
  "display_collision (behaviours world_occupied_once 0) \<and>
   start_headless_x (Some '':73'') world_occupied_once =
     (Value \<lparr>pid = 1, display = Some '':73'', port = None\<rparr>,
      world_occupied_once\<lparr>next_pid := 2,
        trace :=
          [Spawned 0 [''Xvfb'', '':73'', ''-ac''] None, Sleep 500, Poll 0, Communicate 0,
           Info ''Server already running on %r.Retrying on different display'' [Str '':73''],
           Spawned 1 [''Xvfb'', '':73'', ''-ac''] None, Sleep 500, Poll 1,
           Info ''Brought up headless X on display %r with pid %r'' [Str '':73'', Num 1],
           LogOutput (Stderr 1), LogOutput (Stdout 1)]\<rparr>) \<and>
   display_collision (behaviours world_occupied 0) \<and>
   start_headless_x (Some '':73'') world_occupied =
     (Raise (Exception ''Failed to find a free display when spawning headless X'' []),
      world_occupied\<lparr>next_pid := 10,
        trace :=
          concat (map (\<lambda>k. [Spawned k [''Xvfb'', '':73'', ''-ac''] None, Sleep 500, Poll k,
                Communicate k,
                Info ''Server already running on %r.Retrying on different display''
                  [Str '':73'']])
            [0 ..< 10])\<rparr>)"
proof -
  have ch: "choose_display (Some '':73'') w = (Value '':73'', w)" for w
    by (rule choose_display_explicit) simp
  have ten: "start_headless_x (Some '':73'') world_occupied_once =
      start_headless_x_loop (Suc (Suc 8)) (Some '':73'') world_occupied_once"
    by (simp add: start_headless_x_def)
  have once: "display_collision (behaviours world_occupied_once 0) \<and>
   start_headless_x (Some '':73'') world_occupied_once =
     (Value \<lparr>pid = 1, display = Some '':73'', port = None\<rparr>,
      world_occupied_once\<lparr>next_pid := 2,
        trace :=
          [Spawned 0 [''Xvfb'', '':73'', ''-ac''] None, Sleep 500, Poll 0, Communicate 0,
           Info ''Server already running on %r.Retrying on different display'' [Str '':73''],
           Spawned 1 [''Xvfb'', '':73'', ''-ac''] None, Sleep 500, Poll 1,
           Info ''Brought up headless X on display %r with pid %r'' [Str '':73'', Num 1],
           LogOutput (Stderr 1), LogOutput (Stdout 1)]\<rparr>)"
    unfolding ten headless_x_attempt [OF ch]
    by (simp add: display_collision_def world_occupied_once_def world0_def occupied_def quiet_def)
  have c: "display_collision (behaviours world_occupied k)" for k
    by (simp add: display_collision_def world_occupied_def occupied_def quiet_def)
  have z: "next_pid world_occupied = 0" "trace world_occupied = []"
    by (simp_all add: world_occupied_def world0_def)
  have d: "'':73'' \<noteq> []"
    by simp
  have "\<forall>k<10. display_collision (behaviours world_occupied (next_pid world_occupied + k))"
    using c by simp
  from headless_x_loop_explicit_collisions [OF d this] z
  have always: "start_headless_x (Some '':73'') world_occupied =
     (Raise (Exception ''Failed to find a free display when spawning headless X'' []),
      world_occupied\<lparr>next_pid := 10,
        trace :=
          concat (map (\<lambda>k. [Spawned k [''Xvfb'', '':73'', ''-ac''] None, Sleep 500, Poll k,
                Communicate k,
                Info ''Server already running on %r.Retrying on different display''
                  [Str '':73'']])
            [0 ..< 10])\<rparr>)"
    by (simp add: start_headless_x_def)
  from once c [of 0] always show ?thesis
    by (intro conjI) (rule conjunct1, assumption, rule conjunct2, assumption, assumption+)
qed

section \<open>Launching the Selenium server\<close>

lemma wait_loop_frame:
  "\<exists>t. snd (wait_for_selenium_start_loop p ss q w) = w\<lparr>trace := t\<rparr>"
proof (induction q arbitrary: ss w)
  case Nil
  show ?case
    by (cases ss) (auto simp: wait_loop_no_streams wait_loop_empty_queue intro: exI [of _ "trace w"])
next
  case (Cons it q)
  show ?case
  proof (cases ss)
    case Nil
    then show ?thesis
      by (auto simp: wait_loop_no_streams)
  next
    case ss: (Cons s ss')
    show ?thesis
    proof (cases it)
      case (Close c)
      show ?thesis
      proof (cases "c \<in> set (s # ss')")
        case True
        with Cons.IH [of "remove1 c (s # ss')" w] show ?thesis
          unfolding ss Close by (simp only: wait_loop_close)
      next
        case False
        then show ?thesis
          unfolding ss Close
          by (auto simp: wait_loop_close_absent intro: exI [of _ "trace w"])
      qed
    next
      case (Line l)
      show ?thesis
      proof (cases "marked (Line l)")
        case True
        then show ?thesis
          unfolding ss Line
          by (subst wait_for_selenium_start_loop.simps)
             (auto simp: debug_def emit_def raise_def bindC_def log_output_def get_port_def
                info_def ret_def wait_def split: option.splits result.splits)
      next
        case False
        from Cons.IH [of "s # ss'" "w\<lparr>trace := trace w @ [Debug l]\<rparr>"]
        show ?thesis
          unfolding ss Line wait_loop_skip [OF False] by simp
      qed
    qed
  qed
qed

lemma wait_for_selenium_start_frame:
  "rand_ix (snd (wait_for_selenium_start p w)) = rand_ix w \<and>
   next_pid (snd (wait_for_selenium_start p w)) = next_pid w \<and>
   behaviours (snd (wait_for_selenium_start p w)) = behaviours w \<and>
   environ (snd (wait_for_selenium_start p w)) = environ w"
proof -
  from wait_loop_frame obtain t where "snd (wait_for_selenium_start p w) = w\<lparr>trace := t\<rparr>"
    unfolding wait_for_selenium_start_def by blast
  then show ?thesis
    by simp
qed

lemma wait_for_selenium_start_outcome:
  "behaviours w' = behaviours w \<Longrightarrow>
   fst (wait_for_selenium_start p w') = fst (wait_for_selenium_start p w)"
  by (simp add: wait_for_selenium_start_def wait_loop_verdict verdict_def
      split: rl_result.splits option.splits)

lemma selenium_server_loop_0:
  "start_selenium_server_loop 0 dsp w = (Raise (Exception ''Failed to start selenium server'' []), w)"
  by (simp add: raise_def)

lemma selenium_server_spawn_fails:
  assumes "environ w ''SELENIUM_SERVER_JAR'' = Some jar"
    and "spawn_error (behaviours w (next_pid w)) = Some e"
  shows "start_selenium_server_loop (Suc n) dsp w =
     (Raise e,
      w\<lparr>rand_ix := Suc (rand_ix w),
        trace := trace w @
          [Info ''Bringing up selenium'' [],
           RandInt 1025 65535 (1025 + rand w (rand_ix w) mod 64511),
           SpawnFailed [''java'', ''-jar'', jar, ''-port'',
             decimal (1025 + rand w (rand_ix w) mod 64511)]]\<rparr>)"
  using assms
  by (simp add: bindC_def info_def emit_def pick_random_port_def randint_def
      environ_lookup_def Popen_def Let_def)

lemma selenium_server_attempt:
  assumes "environ w ''SELENIUM_SERVER_JAR'' = Some jar"
    and "spawn_error (behaviours w (next_pid w)) = None"
    and "pt = 1025 + rand w (rand_ix w) mod 64511"
    and "srv = \<lparr>pid = next_pid w, display = None, port = Some pt\<rparr>"
    and "w2 = w\<lparr>rand_ix := Suc (rand_ix w), next_pid := Suc (next_pid w),
          trace := trace w @
            [Info ''Bringing up selenium'' [], RandInt 1025 65535 pt,
             Spawned (next_pid w) [''java'', ''-jar'', jar, ''-port'', decimal pt] (Some dsp)]\<rparr>"
  shows "start_selenium_server_loop (Suc n) dsp w =
     (case wait_for_selenium_start srv w2 of
        (Value started, w3) \<Rightarrow>
          if started then (Value srv, w3) else start_selenium_server_loop n dsp w3
      | (Raise e, w3) \<Rightarrow> (Raise e, w3)
      | (Blocked, w3) \<Rightarrow> (Blocked, w3))"
proof -
  obtain r w3 where r: "wait_for_selenium_start srv w2 = (r, w3)"
    by (cases "wait_for_selenium_start srv w2")
  show ?thesis
  proof (cases r)
    case (Value started)
    with assms r show ?thesis
      by (simp add: bindC_def info_def emit_def pick_random_port_def randint_def
          environ_lookup_def Popen_def Let_def ret_def)
  next
    case (Raise e)
    with assms r show ?thesis
      by (simp add: bindC_def info_def emit_def pick_random_port_def randint_def
          environ_lookup_def Popen_def Let_def ret_def)
  next
    case Blocked
    with assms r show ?thesis
      by (simp add: bindC_def info_def emit_def pick_random_port_def randint_def
          environ_lookup_def Popen_def Let_def ret_def)
  qed
qed

declare start_selenium_server_loop.simps [simp del]

lemma selenium_server_loop_bounds:
  "rand_ix (snd (start_selenium_server_loop n dsp w)) \<le> rand_ix w + n \<and>
   next_pid (snd (start_selenium_server_loop n dsp w)) \<le> next_pid w + n"
proof (induction n arbitrary: w)
  case 0
  show ?case by (simp add: selenium_server_loop_0)
next
  case (Suc n)
  show ?case
  proof (cases "environ w ''SELENIUM_SERVER_JAR''")
    case None
    then show ?thesis by (simp add: missing_jar_loop)
  next
    case (Some jar)
    show ?thesis
    proof (cases "spawn_error (behaviours w (next_pid w))")
      case e: (Some e)
      show ?thesis by (simp add: selenium_server_spawn_fails [OF Some e])
    next
      case None
      define pt where "pt = 1025 + rand w (rand_ix w) mod 64511"
      define srv where "srv = \<lparr>pid = next_pid w, display = None, port = Some pt\<rparr>"
      define w2 where "w2 = w\<lparr>rand_ix := Suc (rand_ix w), next_pid := Suc (next_pid w),
          trace := trace w @
            [Info ''Bringing up selenium'' [], RandInt 1025 65535 pt,
             Spawned (next_pid w) [''java'', ''-jar'', jar, ''-port'', decimal pt] (Some dsp)]\<rparr>"
      obtain r w3 where r: "wait_for_selenium_start srv w2 = (r, w3)"
        by (cases "wait_for_selenium_start srv w2")
      from wait_for_selenium_start_frame [of srv w2] r
      have fr: "rand_ix w3 = Suc (rand_ix w)" "next_pid w3 = Suc (next_pid w)"
        by (simp_all add: w2_def)
      from Suc.IH [of w3] fr
      have ih: "rand_ix (snd (start_selenium_server_loop n dsp w3)) \<le> rand_ix w + Suc n"
        "next_pid (snd (start_selenium_server_loop n dsp w3)) \<le> next_pid w + Suc n"
        by simp_all
      show ?thesis
        unfolding selenium_server_attempt [OF Some None pt_def srv_def w2_def] r
        using fr ih by (simp split: result.splits)
    qed
  qed
qed

lemma selenium_server_loop_exhausted:
  assumes "environ w ''SELENIUM_SERVER_JAR'' = Some jar"
    and "\<forall>k<n. spawn_error (behaviours w (next_pid w + k)) = None \<and>
           (\<forall>pt. fst (wait_for_selenium_start
                        \<lparr>pid = next_pid w + k, display = None, port = Some pt\<rparr> w) = Value False)"
  shows "fst (start_selenium_server_loop n dsp w) =
           Raise (Exception ''Failed to start selenium server'' []) \<and>
         rand_ix (snd (start_selenium_server_loop n dsp w)) = rand_ix w + n \<and>
         next_pid (snd (start_selenium_server_loop n dsp w)) = next_pid w + n"
  using assms
proof (induction n arbitrary: w)
  case 0
  show ?case by (simp add: selenium_server_loop_0)
next
  case (Suc n)
  from Suc.prems(2) have None: "spawn_error (behaviours w (next_pid w)) = None"
    by force
  define pt where "pt = 1025 + rand w (rand_ix w) mod 64511"
  define srv where "srv = \<lparr>pid = next_pid w, display = None, port = Some pt\<rparr>"
  define w2 where "w2 = w\<lparr>rand_ix := Suc (rand_ix w), next_pid := Suc (next_pid w),
      trace := trace w @
        [Info ''Bringing up selenium'' [], RandInt 1025 65535 pt,
         Spawned (next_pid w) [''java'', ''-jar'', jar, ''-port'', decimal pt] (Some dsp)]\<rparr>"
  obtain r w3 where r: "wait_for_selenium_start srv w2 = (r, w3)"
    by (cases "wait_for_selenium_start srv w2")
  have b2: "behaviours w2 = behaviours w"
    by (simp add: w2_def)
  from Suc.prems(2) have "fst (wait_for_selenium_start srv w) = Value False"
    unfolding srv_def by force
  with wait_for_selenium_start_outcome [OF b2, of srv] r have rF: "r = Value False"
    by simp
  from wait_for_selenium_start_frame [of srv w2] r
  have fr: "rand_ix w3 = Suc (rand_ix w)" "next_pid w3 = Suc (next_pid w)"
    "behaviours w3 = behaviours w" "environ w3 = environ w"
    by (simp_all add: w2_def)
  have env3: "environ w3 ''SELENIUM_SERVER_JAR'' = Some jar"
    using Suc.prems(1) fr by simp
  have "\<forall>k<n. spawn_error (behaviours w3 (next_pid w3 + k)) = None \<and>
           (\<forall>pt. fst (wait_for_selenium_start
                        \<lparr>pid = next_pid w3 + k, display = None, port = Some pt\<rparr> w3) = Value False)"
  proof (intro allI impI)
    fix k assume k: "k < n"
    with Suc.prems(2) have
      "spawn_error (behaviours w (next_pid w + Suc k)) = None \<and>
       (\<forall>pt. fst (wait_for_selenium_start
                   \<lparr>pid = next_pid w + Suc k, display = None, port = Some pt\<rparr> w) = Value False)"
      by (metis Suc_less_eq)
    then show "spawn_error (behaviours w3 (next_pid w3 + k)) = None \<and>
           (\<forall>pt. fst (wait_for_selenium_start
                        \<lparr>pid = next_pid w3 + k, display = None, port = Some pt\<rparr> w3) = Value False)"
      using fr wait_for_selenium_start_outcome [OF fr(3)] by simp
  qed
  from Suc.IH [OF env3 this] fr
  have ih: "fst (start_selenium_server_loop n dsp w3) =
           Raise (Exception ''Failed to start selenium server'' [])"
    "rand_ix (snd (start_selenium_server_loop n dsp w3)) = rand_ix w + Suc n"
    "next_pid (snd (start_selenium_server_loop n dsp w3)) = next_pid w + Suc n"
    by simp_all
  show ?case
    unfolding selenium_server_attempt [OF Suc.prems(1) None pt_def srv_def w2_def] r rF
    using ih by simp
qed

text \<open>
  Claim C5.  \<^verbatim>\<open>start_headless_x\<close> without an explicit display and
  \<^verbatim>\<open>start_selenium_server\<close> each call the allocator at most ten times and spawn at most ten
  processes, in every world.  When each of the ten processes collides (the display server
  exits reporting its display in use; the Selenium server reports its port in use and is
  reaped), the call raises the failure of the exhausted loop, after exactly ten
  allocations.
\<close>

theorem launchers_stop_after_ten_attempts:
  "rand_ix (snd (start_headless_x None w)) \<le> rand_ix w + 10 \<and>
   next_pid (snd (start_headless_x None w)) \<le> next_pid w + 10 \<and>
   ((\<forall>k<10. display_collision (behaviours w (next_pid w + k))) \<longrightarrow>
      fst (start_headless_x None w) =
        Raise (Exception ''Failed to find a free display when spawning headless X'' []) \<and>
      rand_ix (snd (start_headless_x None w)) = rand_ix w + 10) \<and>
   rand_ix (snd (start_selenium_server dsp v)) \<le> rand_ix v + 10 \<and>
   next_pid (snd (start_selenium_server dsp v)) \<le> next_pid v + 10 \<and>
   (environ v ''SELENIUM_SERVER_JAR'' = Some jar \<and>
    (\<forall>k<10. spawn_error (behaviours v (next_pid v + k)) = None \<and>
       (\<forall>pt. fst (wait_for_selenium_start
                    \<lparr>pid = next_pid v + k, display = None, port = Some pt\<rparr> v) = Value False)) \<longrightarrow>
      fst (start_selenium_server dsp v) = Raise (Exception ''Failed to start selenium server'' []) \<and>
      rand_ix (snd (start_selenium_server dsp v)) = rand_ix v + 10)"
proof -
  have x_bound: "rand_ix (snd (start_headless_x None w)) \<le> rand_ix w + 10"
    "next_pid (snd (start_headless_x None w)) \<le> next_pid w + 10"
    using headless_x_loop_bounds [of 10 None w] by (simp_all add: start_headless_x_def)
  have x_all: "fst (start_headless_x None w) =
        Raise (Exception ''Failed to find a free display when spawning headless X'' []) \<and>
      rand_ix (snd (start_headless_x None w)) = rand_ix w + 10"
    if "\<forall>k<10. display_collision (behaviours w (next_pid w + k))"
    using headless_x_loop_exhausted [OF that, of None] by (simp add: start_headless_x_def)
  have s_bound: "rand_ix (snd (start_selenium_server dsp v)) \<le> rand_ix v + 10"
    "next_pid (snd (start_selenium_server dsp v)) \<le> next_pid v + 10"
    using selenium_server_loop_bounds [of 10 dsp v] by (simp_all add: start_selenium_server_def)
  have s_all: "fst (start_selenium_server dsp v) =
        Raise (Exception ''Failed to start selenium server'' []) \<and>
      rand_ix (snd (start_selenium_server dsp v)) = rand_ix v + 10"
    if "environ v ''SELENIUM_SERVER_JAR'' = Some jar \<and>
      (\<forall>k<10. spawn_error (behaviours v (next_pid v + k)) = None \<and>
       (\<forall>pt. fst (wait_for_selenium_start
                    \<lparr>pid = next_pid v + k, display = None, port = Some pt\<rparr> v) = Value False))"
    using selenium_server_loop_exhausted [of v jar 10 dsp] that
    by (simp add: start_selenium_server_def)
  from x_all have A: "(\<forall>k<10. display_collision (behaviours w (next_pid w + k))) \<longrightarrow>
      fst (start_headless_x None w) =
        Raise (Exception ''Failed to find a free display when spawning headless X'' []) \<and>
      rand_ix (snd (start_headless_x None w)) = rand_ix w + 10"
    by (rule impI)
  from s_all have B: "environ v ''SELENIUM_SERVER_JAR'' = Some jar \<and>
    (\<forall>k<10. spawn_error (behaviours v (next_pid v + k)) = None \<and>
       (\<forall>pt. fst (wait_for_selenium_start
                    \<lparr>pid = next_pid v + k, display = None, port = Some pt\<rparr> v) = Value False)) \<longrightarrow>
      fst (start_selenium_server dsp v) = Raise (Exception ''Failed to start selenium server'' []) \<and>
      rand_ix (snd (start_selenium_server dsp v)) = rand_ix v + 10"
    by (rule impI)
  show ?thesis
    by (intro conjI; fact x_bound s_bound A B)
qed

theorem launchers_stop_after_ten_attempts_witness:
  "fst (start_headless_x None world_occupied) =
     Raise (Exception ''Failed to find a free display when spawning headless X'' []) \<and>
   rand_ix (snd (start_headless_x None world_occupied)) = 10 \<and>
   environ world_busy_ports ''SELENIUM_SERVER_JAR'' = Some ''/opt/selenium-server.jar'' \<and>
   fst (start_selenium_server '':7'' world_busy_ports) =
     Raise (Exception ''Failed to start selenium server'' []) \<and>
   rand_ix (snd (start_selenium_server '':7'' world_busy_ports)) = 10"
proof -
  have x: "\<forall>k<10. display_collision (behaviours world_occupied (next_pid world_occupied + k))"
    by (simp add: display_collision_def world_occupied_def occupied_def quiet_def)
  have e: "environ world_busy_ports ''SELENIUM_SERVER_JAR'' = Some ''/opt/selenium-server.jar''"
    by (simp add: world_busy_ports_def)
  have s: "\<forall>k<10. spawn_error (behaviours world_busy_ports (next_pid world_busy_ports + k)) = None \<and>
      (\<forall>pt. fst (wait_for_selenium_start
                   \<lparr>pid = next_pid world_busy_ports + k, display = None, port = Some pt\<rparr>
                   world_busy_ports) = Value False)"
    by (simp add: wait_for_selenium_start_def wait_loop_verdict verdict_def world_busy_ports_def
        world_busy_port_def world0_def quiet_def upt_rec)
  have z: "rand_ix world_occupied = 0" "rand_ix world_busy_ports = 0"
    by (simp_all add: world_occupied_def world_busy_ports_def world_busy_port_def world0_def)
  note T = launchers_stop_after_ten_attempts
    [of world_occupied "'':7''" world_busy_ports "''/opt/selenium-server.jar''", unfolded z]
  from T x have a: "fst (start_headless_x None world_occupied) =
     Raise (Exception ''Failed to find a free display when spawning headless X'' []) \<and>
     rand_ix (snd (start_headless_x None world_occupied)) = 0 + 10"
    by blast
  from T e s have b: "fst (start_selenium_server '':7'' world_busy_ports) =
     Raise (Exception ''Failed to start selenium server'' []) \<and>
     rand_ix (snd (start_selenium_server '':7'' world_busy_ports)) = 0 + 10"
    by blast
  have ten: "(0::nat) + 10 = 10"
    by simp
  from e a b show ?thesis
    unfolding ten by (intro conjI) (erule conjunct1 conjunct2 | assumption)+
qed

section \<open>The session is torn down in reverse order\<close>

lemma wait_loop_ready:
  assumes "l \<noteq> []" and "py_in ''Started SocketListener on'' l" and "port p = Some n"
  shows "wait_for_selenium_start_loop p (s # ss) (Line l # q) w =
     (Value True,
      w\<lparr>trace := trace w @
          [Debug l, LogOutput (Merged (pid p)),
           Info ''Selenium server listening on %r with pid %r'' [Num n, Num (pid p)]]\<rparr>)"
  using assms
  by (subst wait_for_selenium_start_loop.simps)
     (simp add: debug_def emit_def bindC_def log_output_def get_port_def info_def ret_def)

lemma kill_then_wait:
  "snd (try_finally (kill p) (wait p) w) = w\<lparr>trace := trace w @ [Kill (pid p), Wait (pid p)]\<rparr> \<and>
   (fst (try_finally (kill p) (wait p) w) = Blocked \<longleftrightarrow>
      wait_outcome (behaviours w (pid p)) = Blocked)"
  by (cases "kill_error (behaviours w (pid p))"; cases "wait_outcome (behaviours w (pid p))")
     (simp_all add: try_finally_def kill_def wait_def)

lemma with_proc_exit:
  assumes "spawn w = (Value p, w1)" and "body p w1 = (r, w2)" and "r \<noteq> Blocked"
  shows "snd (with_proc spawn body w) = w2\<lparr>trace := trace w2 @ [Kill (pid p), Wait (pid p)]\<rparr> \<and>
         (fst (with_proc spawn body w) = Blocked \<longleftrightarrow>
            wait_outcome (behaviours w2 (pid p)) = Blocked)"
proof -
  obtain r' w' where kw: "try_finally (kill p) (wait p) w2 = (r', w')"
    by (cases "try_finally (kill p) (wait p) w2")
  with kill_then_wait [of p w2]
  have w': "w' = w2\<lparr>trace := trace w2 @ [Kill (pid p), Wait (pid p)]\<rparr>"
    and r': "r' = Blocked \<longleftrightarrow> wait_outcome (behaviours w2 (pid p)) = Blocked"
    by simp_all
  from assms kw show ?thesis
    unfolding w' r' [symmetric]
    by (cases r; cases r') (simp_all add: with_proc_def bindC_def try_finally_def [of "body p"])
qed

lemma client_scope_exit:
  assumes "body sel w3 = (r, w4)" and "r \<noteq> Blocked"
  shows "snd (try_finally (body sel) (sel_stop sel) w3) = w4\<lparr>trace := trace w4 @ [ClientStop]\<rparr> \<and>
         (fst (try_finally (body sel) (sel_stop sel) w3) = Blocked \<longleftrightarrow> client_stop w4 = Blocked)"
  using assms
  by (cases r; cases "client_stop w4") (simp_all add: try_finally_def sel_stop_def)

text \<open>
  Claim C6.  Once \<^verbatim>\<open>with_selenium\<close> has both servers and a started client and has handed
  the client to the body, and the body has returned or raised, the call goes on to make
  exactly five calls, in this order: the client's \<^verbatim>\<open>stop\<close>, \<^verbatim>\<open>kill\<close> and \<^verbatim>\<open>wait\<close> on the
  Selenium server, \<^verbatim>\<open>kill\<close> and \<^verbatim>\<open>wait\<close> on the display server; the world at the end is the
  one the body left with these five appended.  This holds whatever the body returned or
  raised and whatever the five calls return or raise, as long as \<^verbatim>\<open>stop\<close> and the \<^verbatim>\<open>wait\<close>
  on the Selenium server come back at all; and then the whole call comes back unless the
  last \<^verbatim>\<open>wait\<close>, on the display server, hangs.
\<close>

theorem with_selenium_teardown_order:
  assumes "start_headless_x None w = (Value X, w1)"
    and "display X = Some d"
    and "start_selenium_server d w1 = (Value server, w2)"
    and "port server = Some pt"
    and "sel0 = \<lparr>sel_host = ''localhost'', sel_port = pt, sel_browser = ''*chrome'',
                  sel_base_url = base_url, sel_X = None, sel_selenium_server = None\<rparr>"
    and "start_selenium sel0
           (w2\<lparr>trace := trace w2 @ [ClientNew ''localhost'' pt ''*chrome'' base_url]\<rparr>) =
         (Value (), w3)"
    and "body (sel0\<lparr>sel_X := Some X, sel_selenium_server := Some server\<rparr>) w3 = (r, w4)"
    and "r \<noteq> Blocked"
    and "client_stop w4 \<noteq> Blocked"
    and "wait_outcome (behaviours w4 (pid server)) \<noteq> Blocked"
  shows "snd (with_selenium base_url body w) =
           w4\<lparr>trace := trace w4 @
               [ClientStop, Kill (pid server), Wait (pid server), Kill (pid X), Wait (pid X)]\<rparr> \<and>
         (fst (with_selenium base_url body w) = Blocked \<longleftrightarrow>
            wait_outcome (behaviours w4 (pid X)) = Blocked)"
proof -
  define sel where "sel = sel0\<lparr>sel_X := Some X, sel_selenium_server := Some server\<rparr>"
  define inner :: "proc \<Rightarrow> 'a comp" where
    "inner = (\<lambda>server.
         bindC (get_port server) (\<lambda>pt.
         bindC (selenium_new ''localhost'' pt ''*chrome'' base_url) (\<lambda>sel0.
         bindC (start_selenium sel0) (\<lambda>_.
         let sel = sel0\<lparr>sel_X := Some X, sel_selenium_server := Some server\<rparr> in
         try_finally (body sel) (sel_stop sel)))))"
  define outer :: "proc \<Rightarrow> 'a comp" where
    "outer = (\<lambda>X.
       bindC (get_display X) (\<lambda>d.
       with_proc (start_selenium_server d) (\<lambda>server.
         bindC (get_port server) (\<lambda>pt.
         bindC (selenium_new ''localhost'' pt ''*chrome'' base_url) (\<lambda>sel0.
         bindC (start_selenium sel0) (\<lambda>_.
         let sel = sel0\<lparr>sel_X := Some X, sel_selenium_server := Some server\<rparr> in
         try_finally (body sel) (sel_stop sel)))))))"
  have ws: "with_selenium base_url body = with_proc (start_headless_x None) outer"
    by (simp add: with_selenium_def outer_def)
  have outer_X: "outer X w1 = with_proc (start_selenium_server d) inner w1"
    using assms(2) by (simp add: outer_def inner_def bindC_def get_display_def ret_def)
  have inner_server: "inner server w2 = try_finally (body sel) (sel_stop sel) w3"
    using assms(4,6) unfolding assms(5) [symmetric]
    by (simp add: inner_def bindC_def get_port_def ret_def selenium_new_def assms(5) [symmetric]
        sel_def Let_def)
  obtain ri wi where i: "inner server w2 = (ri, wi)"
    by (cases "inner server w2")
  from client_scope_exit [of body sel w3 r w4, OF assms(7) [folded sel_def] assms(8)] i assms(9)
  have ri: "ri \<noteq> Blocked" and wi: "wi = w4\<lparr>trace := trace w4 @ [ClientStop]\<rparr>"
    unfolding inner_server by simp_all
  obtain ro wo where o: "outer X w1 = (ro, wo)"
    by (cases "outer X w1")
  from with_proc_exit [of "start_selenium_server d" w1 server w2 inner ri wi, OF assms(3) i ri]
    o assms(10)
  have ro: "ro \<noteq> Blocked"
    and wo: "wo = wi\<lparr>trace := trace wi @ [Kill (pid server), Wait (pid server)]\<rparr>"
    unfolding outer_X wi by simp_all
  from with_proc_exit [of "start_headless_x None" w X w1 outer ro wo, OF assms(1) o ro]
  show ?thesis
    unfolding ws wo wi by simp
qed

text \<open>Both servers come up and the client starts; the body raises, and the body returns.\<close>

theorem with_selenium_teardown_order_witness:
  "with_selenium ''http://www.google.com''
       (\<lambda>sel. raise (OtherException ''Borken'') :: unit comp) world_ok =
     (Raise (OtherException ''Borken''),
      world_ok\<lparr>rand_ix := 2, next_pid := 2, start_calls := 1,
        trace :=
          [RandInt 1 400 1, Spawned 0 [''Xvfb'', '':1'', ''-ac''] None, Sleep 500, Poll 0,
           Info ''Brought up headless X on display %r with pid %r'' [Str '':1'', Num 0],
           LogOutput (Stderr 0), LogOutput (Stdout 0),
           Info ''Bringing up selenium'' [], RandInt 1025 65535 1025,
           Spawned 1 [''java'', ''-jar'', ''/opt/selenium-server.jar'', ''-port'', ''1025'']
             (Some '':1''),
           Debug ''INFO - Started SocketListener on 0.0.0.0:1025'', LogOutput (Merged 1),
           Info ''Selenium server listening on %r with pid %r'' [Num 1025, Num 1],
           ClientNew ''localhost'' 1025 ''*chrome'' ''http://www.google.com'', ClientStart,
           ClientStop, Kill 1, Wait 1, Kill 0, Wait 0]\<rparr>) \<and>
   with_selenium ''http://www.google.com'' (\<lambda>sel. ret ()) world_ok =
     (Value (),
      world_ok\<lparr>rand_ix := 2, next_pid := 2, start_calls := 1,
        trace :=
          [RandInt 1 400 1, Spawned 0 [''Xvfb'', '':1'', ''-ac''] None, Sleep 500, Poll 0,
           Info ''Brought up headless X on display %r with pid %r'' [Str '':1'', Num 0],
           LogOutput (Stderr 0), LogOutput (Stdout 0),
           Info ''Bringing up selenium'' [], RandInt 1025 65535 1025,
           Spawned 1 [''java'', ''-jar'', ''/opt/selenium-server.jar'', ''-port'', ''1025'']
             (Some '':1''),
           Debug ''INFO - Started SocketListener on 0.0.0.0:1025'', LogOutput (Merged 1),
           Info ''Selenium server listening on %r with pid %r'' [Num 1025, Num 1],
           ClientNew ''localhost'' 1025 ''*chrome'' ''http://www.google.com'', ClientStart,
           ClientStop, Kill 1, Wait 1, Kill 0, Wait 0]\<rparr>)"
proof -
  let ?url = "''http://www.google.com''"
  let ?raises = "\<lambda>sel :: client. (raise (OtherException ''Borken'') :: unit comp)"
  let ?returns = "\<lambda>sel :: client. (ret () :: unit comp)"
  let ?X = "\<lparr>pid = 0, display = Some '':1'', port = None\<rparr>"
  let ?S = "\<lparr>pid = 1, display = None, port = Some 1025\<rparr>"
  let ?sel0 = "\<lparr>sel_host = ''localhost'', sel_port = 1025, sel_browser = ''*chrome'',
      sel_base_url = ?url, sel_X = None, sel_selenium_server = None\<rparr>"
  let ?t1 = "[RandInt 1 400 1, Spawned 0 [''Xvfb'', '':1'', ''-ac''] None, Sleep 500, Poll 0,
           Info ''Brought up headless X on display %r with pid %r'' [Str '':1'', Num 0],
           LogOutput (Stderr 0), LogOutput (Stdout 0)]"
  let ?t2 = "?t1 @ [Info ''Bringing up selenium'' [], RandInt 1025 65535 1025,
           Spawned 1 [''java'', ''-jar'', ''/opt/selenium-server.jar'', ''-port'', ''1025'']
             (Some '':1''),
           Debug ''INFO - Started SocketListener on 0.0.0.0:1025'', LogOutput (Merged 1),
           Info ''Selenium server listening on %r with pid %r'' [Num 1025, Num 1]]"
  let ?t3 = "?t2 @ [ClientNew ''localhost'' 1025 ''*chrome'' ?url, ClientStart]"
  let ?w1 = "world_ok\<lparr>rand_ix := 1, next_pid := 1, trace := ?t1\<rparr>"
  let ?w2 = "world_ok\<lparr>rand_ix := 2, next_pid := 2, trace := ?t2\<rparr>"
  let ?w3 = "world_ok\<lparr>rand_ix := 2, next_pid := 2, start_calls := 1, trace := ?t3\<rparr>"
  let ?w5 = "?w3\<lparr>trace := trace ?w3 @ [ClientStop, Kill 1, Wait 1, Kill 0, Wait 0]\<rparr>"
  have dec: "decimal (Suc 0) = ''1''" "decimal 1025 = ''1025''"
    by code_simp+
  have ch: "choose_display None world_ok =
      (Value '':1'', world_ok\<lparr>rand_ix := 1, trace := [RandInt 1 400 1]\<rparr>)"
    by (simp add: pick_random_display_eq dec world_ok_def world0_def)
  have x: "start_headless_x None world_ok = (Value ?X, ?w1)"
    using headless_x_attempt [OF ch, of 9]
    by (simp add: start_headless_x_def world_ok_def world0_def quiet_def)
  have s: "start_selenium_server '':1'' ?w1 = (Value ?S, ?w2)"
    using selenium_server_attempt [of ?w1 "''/opt/selenium-server.jar''" _ _ _ "'':1''" 9,
        OF _ _ refl refl refl]
    by (simp add: start_selenium_server_def world_ok_def world0_def quiet_def selenium_ready_def
        dec wait_for_selenium_start_def wait_loop_ready upt_rec)
  have c: "start_selenium ?sel0
      (?w2\<lparr>trace := trace ?w2 @ [ClientNew ''localhost'' 1025 ''*chrome'' ?url]\<rparr>) =
      (Value (), ?w3)"
    using start_selenium_loop_ok
      [of "?w2\<lparr>trace := trace ?w2 @ [ClientNew ''localhost'' 1025 ''*chrome'' ?url]\<rparr>" "()" 9 ?sel0]
    by (simp add: start_selenium_def world_ok_def world0_def)
  have b1: "?raises (?sel0\<lparr>sel_X := Some ?X, sel_selenium_server := Some ?S\<rparr>) ?w3 =
      (Raise (OtherException ''Borken''), ?w3)"
    by (simp add: raise_def)
  have b2: "?returns (?sel0\<lparr>sel_X := Some ?X, sel_selenium_server := Some ?S\<rparr>) ?w3 =
      (Value (), ?w3)"
    by (simp add: ret_def)
  have quiet3: "client_stop ?w3 \<noteq> Blocked" "wait_outcome (behaviours ?w3 (pid ?S)) \<noteq> Blocked"
    by (simp_all add: world_ok_def world0_def quiet_def selenium_ready_def)
  from with_selenium_teardown_order
    [where body = ?raises and r = "Raise (OtherException ''Borken'')" and ?w4.0 = ?w3,
     OF x _ s _ refl c b1 _ quiet3]
  have snd1: "snd (with_selenium ?url ?raises world_ok) = ?w5"
    by simp
  from with_selenium_teardown_order
    [where body = ?returns and r = "Value ()" and ?w4.0 = ?w3, OF x _ s _ refl c b2 _ quiet3]
  have snd2: "snd (with_selenium ?url ?returns world_ok) = ?w5"
    by simp
  have fst1: "fst (with_selenium ?url ?raises world_ok) = Raise (OtherException ''Borken'')"
    unfolding with_selenium_def with_proc_def
    using x s c
    by (simp add: bindC_def get_display_def get_port_def ret_def selenium_new_def Let_def
        try_finally_def raise_def sel_stop_def kill_def wait_def world_ok_def world0_def
        quiet_def selenium_ready_def)
  have fst2: "fst (with_selenium ?url ?returns world_ok) = Value ()"
    unfolding with_selenium_def with_proc_def
    using x s c
    by (simp add: bindC_def get_display_def get_port_def ret_def selenium_new_def Let_def
        try_finally_def sel_stop_def kill_def wait_def world_ok_def world0_def
        quiet_def selenium_ready_def)
  have "with_selenium ?url ?raises world_ok = (Raise (OtherException ''Borken''), ?w5)"
    using fst1 snd1 by (simp add: prod_eq_iff)
  moreover have "with_selenium ?url ?returns world_ok = (Value (), ?w5)"
    using fst2 snd2 by (simp add: prod_eq_iff)
  ultimately show ?thesis
    by (simp add: world_ok_def world0_def)
qed

section \<open>Every line comes out of the merged stream exactly once\<close>

lemma exec_cases [consumes 1, case_names read_line read_eof put_line put_close eof get_line
    get_close get_close_absent]:
  assumes "exec t s = Some s'"
  obtains
    i l rest where "t = Pusher i" "i < length (pushers s)" "pushers s ! i = Reading (l # rest)"
      "l \<noteq> []" "s' = s\<lparr>pushers := (pushers s)[i := Putting l rest]\<rparr>"
  | i ls where "t = Pusher i" "i < length (pushers s)" "pushers s ! i = Reading ls"
      "ls = [] \<or> hd ls = []" "s' = s\<lparr>pushers := (pushers s)[i := Closing]\<rparr>"
  | i l rest where "t = Pusher i" "i < length (pushers s)" "pushers s ! i = Putting l rest"
      "s' = s\<lparr>pushers := (pushers s)[i := Reading rest], queue := queue s @ [Line l]\<rparr>"
  | i where "t = Pusher i" "i < length (pushers s)" "pushers s ! i = Closing"
      "s' = s\<lparr>pushers := (pushers s)[i := Finished], queue := queue s @ [Close i]\<rparr>"
  | "t = Consumer" "\<not> failed s" "streams s = []" "s' = s\<lparr>out := out s @ [[]]\<rparr>"
  | l q' where "t = Consumer" "\<not> failed s" "streams s \<noteq> []" "queue s = Line l # q'"
      "s' = s\<lparr>queue := q', out := out s @ [l]\<rparr>"
  | c q' where "t = Consumer" "\<not> failed s" "streams s \<noteq> []" "queue s = Close c # q'"
      "c \<in> set (streams s)" "s' = s\<lparr>queue := q', streams := remove1 c (streams s)\<rparr>"
  | c q' where "t = Consumer" "\<not> failed s" "streams s \<noteq> []" "queue s = Close c # q'"
      "c \<notin> set (streams s)" "s' = s\<lparr>queue := q', failed := True\<rparr>"
proof (cases t)
  case (Pusher i)
  with assms have i: "i < length (pushers s)"
    by (simp add: exec_def split: if_splits)
  show ?thesis
  proof (cases "pushers s ! i")
    case (Reading ls)
    show ?thesis
    proof (cases ls)
      case Nil
      with assms Pusher i Reading that(2) [of i ls] show ?thesis
        by (simp add: exec_def)
    next
      case (Cons l rest)
      show ?thesis
      proof (cases "l = []")
        case True
        with assms Pusher i Reading Cons that(2) [of i ls] show ?thesis
          by (simp add: exec_def)
      next
        case False
        with assms Pusher i Reading Cons that(1) [of i l rest] show ?thesis
          by (simp add: exec_def)
      qed
    qed
  next
    case (Putting l rest)
    with assms Pusher i that(3) [of i l rest] show ?thesis
      by (simp add: exec_def)
  next
    case Closing
    with assms Pusher i that(4) [of i] show ?thesis
      by (simp add: exec_def)
  next
    case Finished
    with assms Pusher i show ?thesis
      by (simp add: exec_def)
  qed
next
  case Consumer
  with assms have nf: "\<not> failed s"
    by (simp add: exec_def split: if_splits)
  show ?thesis
  proof (cases "streams s = []")
    case True
    with assms Consumer nf that(5) show ?thesis
      by (simp add: exec_def)
  next
    case False
    show ?thesis
    proof (cases "queue s")
      case Nil
      with assms Consumer nf False show ?thesis
        by (simp add: exec_def)
    next
      case (Cons it q')
      show ?thesis
      proof (cases it)
        case (Line l)
        with assms Consumer nf False Cons that(6) [of l q'] show ?thesis
          by (simp add: exec_def)
      next
        case (Close c)
        with assms Consumer nf False Cons that(7) [of c q'] that(8) [of c q'] show ?thesis
          by (simp add: exec_def split: if_splits)
      qed
    qed
  qed
qed

lemma sum_list_map_update:
  fixes f :: "'a \<Rightarrow> 'b::comm_monoid_add"
  shows "i < length xs \<Longrightarrow>
    sum_list (map f (xs[i := y])) + f (xs ! i) = sum_list (map f xs) + f y"
proof (induction xs arbitrary: i)
  case Nil
  then show ?case by simp
next
  case (Cons x xs)
  show ?case
  proof (cases i)
    case 0
    then show ?thesis by (simp add: ac_simps)
  next
    case (Suc j)
    with Cons.prems have "j < length xs" by simp
    from Cons.IH [OF this] Suc show ?thesis
      by (simp add: ac_simps)
  qed
qed

lemma count_list_remove1_plus:
  "x \<in> set xs \<Longrightarrow> count_list (remove1 x xs) y + (if x = y then 1 else 0) = count_list xs y"
  by (induction xs) auto

lemma count_list_last:
  "xs \<noteq> [] \<Longrightarrow> last xs = x \<Longrightarrow> 0 < count_list xs x"
  by (induction xs) auto

lemma queue_lines_append:
  "queue_lines (q @ q') = queue_lines q @ queue_lines q'"
  by (induction q rule: queue_lines.induct) simp_all

lemma mset_sum_list_member:
  "l \<in># f x \<Longrightarrow> x \<in> set xs \<Longrightarrow> l \<in># sum_list (map f xs)"
  by (induction xs) auto

lemma inv_pending_nonempty:
  assumes "inv contents s" and "\<forall>l \<in> set (concat contents). l \<noteq> []"
    and "i < length (pushers s)" and "l \<in> set (pending (pushers s ! i))"
  shows "l \<noteq> []"
proof -
  from assms(3,4) have "l \<in># sum_list (map (\<lambda>p. mset (pending p)) (pushers s))"
    by (intro mset_sum_list_member [of l "\<lambda>p. mset (pending p)" "pushers s ! i"]) simp_all
  with assms(1) have "l \<in># mset (concat contents)"
    unfolding inv_def by (metis union_iff)
  with assms(2) show ?thesis
    by (metis set_mset_mset)
qed

lemma inv_queue_nonempty:
  assumes "inv contents s" and "\<forall>l \<in> set (concat contents). l \<noteq> []"
    and "queue s = Line l # q'"
  shows "l \<noteq> []"
proof -
  from assms(3) have "l \<in># mset (queue_lines (queue s))"
    by simp
  with assms(1) have "l \<in># mset (concat contents)"
    unfolding inv_def by (metis union_iff)
  with assms(2) show ?thesis
    by (metis set_mset_mset)
qed

lemma inv_close_member:
  assumes "inv contents s" and "queue s = Close c # q'"
  shows "c \<in> set (streams s)"
proof -
  from assms have "0 < count_list (streams s) c"
    unfolding inv_def by simp
  then show ?thesis
    by (metis count_list_0_iff less_numeral_extra(3))
qed

lemma inv_step_closes:
  assumes "inv contents s" and "\<forall>l \<in> set (concat contents). l \<noteq> []"
    and "exec t s = Some s'"
  shows "\<not> failed s' \<and>
      (\<forall>i. count_list (streams s') i =
             (if i < length (pushers s') \<and> pushers s' ! i \<noteq> Finished then 1 else 0) +
             count_list (queue s') (Close i))"
  using assms(3)
proof (cases rule: exec_cases)
  case (read_line i l rest)
  with assms(1) show ?thesis
    unfolding inv_def by (auto simp: nth_list_update)
next
  case (read_eof i ls)
  with assms(1) show ?thesis
    unfolding inv_def by (auto simp: nth_list_update)
next
  case (put_line i l rest)
  with assms(1) show ?thesis
    unfolding inv_def by (auto simp: nth_list_update)
next
  case (put_close i)
  with assms(1) show ?thesis
    unfolding inv_def by (auto simp: nth_list_update)
next
  case eof
  with assms(1) show ?thesis
    unfolding inv_def by simp
next
  case (get_line l q')
  with assms(1) show ?thesis
    unfolding inv_def by simp
next
  case (get_close c q')
  from assms(1) have nf: "\<not> failed s" and
    cnt: "\<And>i. count_list (streams s) i =
             (if i < length (pushers s) \<and> pushers s ! i \<noteq> Finished then 1 else 0) +
             count_list (queue s) (Close i)"
    unfolding inv_def by simp_all
  have "count_list (remove1 c (streams s)) i =
             (if i < length (pushers s) \<and> pushers s ! i \<noteq> Finished then 1 else 0) +
             count_list q' (Close i)" for i
    using count_list_remove1_plus [OF get_close(5), of i] cnt [of i] get_close(4)
    by (simp split: if_splits)
  with nf get_close show ?thesis
    by simp
next
  case (get_close_absent c q')
  with inv_close_member [OF assms(1)] show ?thesis
    by simp
qed

lemma inv_step_lines:
  assumes "inv contents s" and "\<forall>l \<in> set (concat contents). l \<noteq> []"
    and "exec t s = Some s'"
  shows "mset (filter (\<lambda>l. l \<noteq> []) (out s')) + mset (queue_lines (queue s')) +
        sum_list (map (\<lambda>p. mset (pending p)) (pushers s')) = mset (concat contents)"
proof -
  from assms(1) have I: "mset (filter (\<lambda>l. l \<noteq> []) (out s)) + mset (queue_lines (queue s)) +
        sum_list (map (\<lambda>p. mset (pending p)) (pushers s)) = mset (concat contents)"
    unfolding inv_def by blast
  note upd = sum_list_map_update [of _ "pushers s" "\<lambda>p. mset (pending p)"]
  from assms(3) show ?thesis
  proof (cases rule: exec_cases)
    case (read_line i l rest)
    with I upd [of i "Putting l rest"] show ?thesis
      by simp
  next
    case (read_eof i ls)
    have "ls = []"
    proof (rule ccontr)
      assume "ls \<noteq> []"
      with read_eof have "[] \<in> set (pending (pushers s ! i))"
        by (cases ls) simp_all
      with inv_pending_nonempty [OF assms(1,2) read_eof(2)] show False
        by blast
    qed
    with read_eof I upd [of i Closing] show ?thesis
      by simp
  next
    case (put_line i l rest)
    with upd [of i "Reading rest"]
    have "sum_list (map (\<lambda>p. mset (pending p)) (pushers s)) =
        add_mset l (sum_list (map (\<lambda>p. mset (pending p)) ((pushers s)[i := Reading rest])))"
      by simp
    with I put_line show ?thesis
      by (simp add: queue_lines_append)
  next
    case (put_close i)
    with I upd [of i Finished] show ?thesis
      by (simp add: queue_lines_append)
  next
    case eof
    with I show ?thesis
      by simp
  next
    case (get_line l q')
    with I inv_queue_nonempty [OF assms(1,2) get_line(4)] show ?thesis
      by simp
  next
    case (get_close c q')
    with I show ?thesis
      by simp
  next
    case (get_close_absent c q')
    with I show ?thesis
      by simp
  qed
qed

lemma inv_step_tail:
  assumes "inv contents s" and "exec t s = Some s'"
  shows "(\<forall>p \<in> set (pushers s'). p = Finished) \<longrightarrow>
         queue s' = [] \<or> (\<exists>c. last (queue s') = Close c)"
proof -
  from assms(1) have I: "(\<forall>p \<in> set (pushers s). p = Finished) \<longrightarrow>
         queue s = [] \<or> (\<exists>c. last (queue s) = Close c)"
    unfolding inv_def by blast
  have busy: "\<not> (\<forall>p \<in> set (xs[i := y]). p = Finished)"
    if "i < length xs" "y \<noteq> Finished" for xs :: "pusher list" and i y
    using that set_update_memI [of i xs y] by blast
  from assms(2) show ?thesis
  proof (cases rule: exec_cases)
    case (read_line i l rest)
    with busy [of i "pushers s" "Putting l rest"] show ?thesis
      by auto
  next
    case (read_eof i ls)
    with busy [of i "pushers s" Closing] show ?thesis
      by auto
  next
    case (put_line i l rest)
    with busy [of i "pushers s" "Reading rest"] show ?thesis
      by auto
  next
    case (put_close i)
    then show ?thesis
      by simp
  next
    case eof
    with I show ?thesis
      by simp
  next
    case (get_line l q')
    with I show ?thesis
      by (cases q') auto
  next
    case (get_close c q')
    with I show ?thesis
      by (cases q') auto
  next
    case (get_close_absent c q')
    with I show ?thesis
      by (cases q') auto
  qed
qed

lemma inv_step_eof:
  assumes "inv contents s" and "\<forall>l \<in> set (concat contents). l \<noteq> []"
    and "exec t s = Some s'"
  shows "([] \<in> set (out s') \<longrightarrow> streams s' = []) \<and>
         filter (\<lambda>l. l \<noteq> []) (out s') = takeWhile (\<lambda>l. l \<noteq> []) (out s')"
proof -
  from assms(1) have I: "[] \<in> set (out s) \<longrightarrow> streams s = []"
    and J: "filter (\<lambda>l. l \<noteq> []) (out s) = takeWhile (\<lambda>l. l \<noteq> []) (out s)"
    unfolding inv_def by blast+
  have full: "takeWhile (\<lambda>l. l \<noteq> []) xs = xs" "filter (\<lambda>l. l \<noteq> []) xs = xs"
    if "[] \<notin> set xs" for xs :: "string list"
    using that by (induction xs) auto
  from assms(3) show ?thesis
  proof (cases rule: exec_cases)
    case (read_line i l rest)
    with I J show ?thesis by simp
  next
    case (read_eof i ls)
    with I J show ?thesis by simp
  next
    case (put_line i l rest)
    with I J show ?thesis by simp
  next
    case (put_close i)
    with I J show ?thesis by simp
  next
    case eof
    show ?thesis
    proof (cases "[] \<in> set (out s)")
      case True
      then have "takeWhile (\<lambda>l. l \<noteq> []) (out s @ [[]]) = takeWhile (\<lambda>l. l \<noteq> []) (out s)"
        by (intro takeWhile_append1 [of "[]"]) simp_all
      with eof J show ?thesis
        by simp
    next
      case False
      with eof full [OF False] show ?thesis
        by (simp add: takeWhile_append2)
    qed
  next
    case (get_line l q')
    with I have no: "[] \<notin> set (out s)"
      by blast
    from inv_queue_nonempty [OF assms(1,2) get_line(4)] have "l \<noteq> []" .
    with get_line no full [OF no] show ?thesis
      by (simp add: takeWhile_append2)
  next
    case (get_close c q')
    with I have no: "[] \<notin> set (out s)"
      by blast
    with get_close J show ?thesis
      by simp
  next
    case (get_close_absent c q')
    with inv_close_member [OF assms(1)] show ?thesis
      by simp
  qed
qed

lemma inv_step:
  assumes "inv contents s" and "\<forall>l \<in> set (concat contents). l \<noteq> []"
    and "exec t s = Some s'"
  shows "inv contents s'"
  unfolding inv_def
  using inv_step_closes [OF assms] inv_step_lines [OF assms] inv_step_tail [OF assms(1,3)]
    inv_step_eof [OF assms]
  by blast

lemma inv_init:
  "inv contents (MergedStream contents)"
proof -
  have "sum_list (map (\<lambda>p. mset (pending p)) (map Reading contents)) = mset (concat contents)"
    by (induction contents) simp_all
  moreover have "count_list [0..<n] i = (if i < n then 1 else 0)" for n i :: nat
    by (induction n) auto
  ultimately show ?thesis
    by (simp add: inv_def MergedStream_def)
qed

lemma inv_run:
  assumes "\<forall>l \<in> set (concat contents). l \<noteq> []"
  shows "inv contents s \<Longrightarrow> run sched s = Some s' \<Longrightarrow> inv contents s'"
proof (induction sched arbitrary: s)
  case Nil
  then show ?case by simp
next
  case (Cons t sched)
  from Cons.prems(2) obtain s1 where s1: "exec t s = Some s1" "run sched s1 = Some s'"
    by (auto split: option.splits)
  from inv_step [OF Cons.prems(1) assms s1(1)] s1(2) show ?case
    by (rule Cons.IH)
qed

lemma out_mono_step:
  "exec t s = Some s' \<Longrightarrow> set (out s) \<subseteq> set (out s')"
  by (cases rule: exec_cases) auto

lemma cost_step:
  assumes "inv contents s" and "\<forall>l \<in> set (concat contents). l \<noteq> []"
    and "[] \<notin> set (out s)" and "exec t s = Some s'"
  shows "cost s' + 1 = cost s"
proof -
  note upd = sum_list_map_update [of _ "pushers s" pusher_cost]
  from assms(4) show ?thesis
  proof (cases rule: exec_cases)
    case (read_line i l rest)
    with assms(3) upd [of i "Putting l rest"] show ?thesis
      by (simp add: cost_def)
  next
    case (read_eof i ls)
    have "ls = []"
    proof (rule ccontr)
      assume "ls \<noteq> []"
      with read_eof have "[] \<in> set (pending (pushers s ! i))"
        by (cases ls) simp_all
      with inv_pending_nonempty [OF assms(1,2) read_eof(2)] show False
        by blast
    qed
    with read_eof assms(3) upd [of i Closing] show ?thesis
      by (simp add: cost_def)
  next
    case (put_line i l rest)
    with assms(3) upd [of i "Reading rest"] show ?thesis
      by (simp add: cost_def)
  next
    case (put_close i)
    with assms(3) upd [of i Finished] show ?thesis
      by (simp add: cost_def)
  next
    case eof
    with assms(3) show ?thesis
      by (simp add: cost_def)
  next
    case (get_line l q')
    with assms(3) inv_queue_nonempty [OF assms(1,2) get_line(4)] show ?thesis
      by (simp add: cost_def)
  next
    case (get_close c q')
    with assms(3) show ?thesis
      by (simp add: cost_def)
  next
    case (get_close_absent c q')
    with inv_close_member [OF assms(1)] show ?thesis
      by simp
  qed
qed

lemma cost_run:
  assumes "\<forall>l \<in> set (concat contents). l \<noteq> []"
  shows "inv contents s \<Longrightarrow> run sched s = Some s' \<Longrightarrow> [] \<notin> set (out s') \<Longrightarrow>
         cost s' + length sched = cost s"
proof (induction sched arbitrary: s)
  case Nil
  then show ?case by simp
next
  case (Cons t sched)
  from Cons.prems(2) obtain s1 where s1: "exec t s = Some s1" "run sched s1 = Some s'"
    by (auto split: option.splits)
  note inv1 = inv_step [OF Cons.prems(1) assms s1(1)]
  from Cons.IH [OF inv1 s1(2) Cons.prems(3)] have rest: "cost s' + length sched = cost s1" .
  have "[] \<notin> set (out s1)"
  proof
    assume "[] \<in> set (out s1)"
    from inv_run [OF assms inv1 s1(2)] have "filter (\<lambda>l. l \<noteq> []) (out s') =
        takeWhile (\<lambda>l. l \<noteq> []) (out s')"
      unfolding inv_def by blast
    moreover have "set (out s1) \<subseteq> set (out s')"
      using s1(2)
    proof (induction sched arbitrary: s1)
      case Nil
      then show ?case by simp
    next
      case (Cons u sched)
      from Cons.prems obtain s2 where s2: "exec u s1 = Some s2" "run sched s2 = Some s'"
        by (auto split: option.splits)
      from out_mono_step [OF s2(1)] Cons.IH [OF s2(2)] show ?case
        by blast
    qed
    ultimately show False
      using \<open>[] \<in> set (out s1)\<close> Cons.prems(3) by blast
  qed
  with out_mono_step [OF s1(1)] have "[] \<notin> set (out s)"
    by blast
  from cost_step [OF Cons.prems(1) assms this s1(1)] rest show ?case
    by simp
qed

lemma cost_init:
  "cost (MergedStream contents) = 3 * length (concat contents) + 3 * length contents + 1"
proof -
  have "sum_list (map pusher_cost (map Reading contents)) =
      3 * length (concat contents) + 3 * length contents"
    by (induction contents) simp_all
  then show ?thesis
    by (simp add: cost_def MergedStream_def)
qed

lemma inv_can_step:
  assumes "inv contents s"
  shows "\<exists>t. exec t s \<noteq> None"
proof (cases "streams s")
  case Nil
  with assms have "exec Consumer s \<noteq> None"
    by (simp add: exec_def inv_def)
  then show ?thesis ..
next
  case (Cons i ss)
  from assms have nf: "\<not> failed s"
    and cnt: "count_list (streams s) i =
             (if i < length (pushers s) \<and> pushers s ! i \<noteq> Finished then 1 else 0) +
             count_list (queue s) (Close i)"
    unfolding inv_def by blast+
  show ?thesis
  proof (cases "i < length (pushers s) \<and> pushers s ! i \<noteq> Finished")
    case True
    moreover have "pusher_step i p \<noteq> None" if "p \<noteq> Finished" for p
      using that by (cases p) (auto split: prod.splits)
    ultimately have "exec (Pusher i) s \<noteq> None"
      by (auto simp: exec_def split: option.splits)
    then show ?thesis ..
  next
    case False
    with cnt Cons have "0 < count_list (queue s) (Close i)"
      by simp
    then have "queue s \<noteq> []"
      by auto
    with nf Cons have "exec Consumer s \<noteq> None"
      by (auto simp: exec_def split: list.splits item.splits)
    then show ?thesis ..
  qed
qed

text \<open>
  Claim C1.  Take any streams whose lines are not empty (a line read from a stream never
  is), and any interleaving of their reader threads and the consumer that calls
  \<^verbatim>\<open>readline\<close> again and again.  Then: the lines returned so far are among the lines of
  the streams, none more often than the streams hold it; if the end marker has been
  returned, the lines returned before its first occurrence are exactly the lines of the
  streams, each as often as the streams hold it; the consumer has not failed; some task
  can take a step, so no interleaving is stuck; and an interleaving in which the end
  marker has not been returned has fewer than \<open>3 * N + 3 * M + 1\<close> steps.  So every
  interleaving, continued long enough, returns all \<open>N\<close> lines and then the end marker.
\<close>

theorem merged_stream_yields_every_line_once:
  assumes "\<forall>l \<in> set (concat contents). l \<noteq> []"
    and "run sched (MergedStream contents) = Some s"
  shows "mset (filter (\<lambda>l. l \<noteq> []) (out s)) \<subseteq># mset (concat contents) \<and>
         (\<forall>ls rest. out s = ls @ [] # rest \<and> [] \<notin> set ls \<longrightarrow>
            mset ls = mset (concat contents)) \<and>
         \<not> failed s \<and>
         (\<exists>t. exec t s \<noteq> None) \<and>
         ([] \<notin> set (out s) \<longrightarrow>
            length sched \<le> 3 * length (concat contents) + 3 * length contents)"
proof -
  note I = inv_run [OF assms(1) inv_init assms(2)]
  from I have lines: "mset (filter (\<lambda>l. l \<noteq> []) (out s)) + mset (queue_lines (queue s)) +
        sum_list (map (\<lambda>p. mset (pending p)) (pushers s)) = mset (concat contents)"
    and cnt: "\<And>i. count_list (streams s) i =
             (if i < length (pushers s) \<and> pushers s ! i \<noteq> Finished then 1 else 0) +
             count_list (queue s) (Close i)"
    and tail: "(\<forall>p \<in> set (pushers s). p = Finished) \<longrightarrow>
         queue s = [] \<or> (\<exists>c. last (queue s) = Close c)"
    and eof: "[] \<in> set (out s) \<longrightarrow> streams s = []"
    and shape: "filter (\<lambda>l. l \<noteq> []) (out s) = takeWhile (\<lambda>l. l \<noteq> []) (out s)"
    and nf: "\<not> failed s"
    unfolding inv_def by blast+
  have sub: "mset (filter (\<lambda>l. l \<noteq> []) (out s)) \<subseteq># mset (concat contents)"
    using lines by (metis mset_subset_eq_add_left union_assoc)
  have all: "mset ls = mset (concat contents)"
    if o: "out s = ls @ [] # rest" and ls: "[] \<notin> set ls" for ls rest
  proof -
    from ls have "\<forall>x \<in> set ls. x \<noteq> []"
      by auto
    with o have "takeWhile (\<lambda>l. l \<noteq> []) (out s) = ls"
      by (simp add: takeWhile_append2)
    with shape have f: "filter (\<lambda>l. l \<noteq> []) (out s) = ls"
      by simp
    from o eof have st: "streams s = []"
      by simp
    have fin: "p = Finished" if "p \<in> set (pushers s)" for p
    proof -
      from that obtain i where i: "i < length (pushers s)" "pushers s ! i = p"
        by (metis in_set_conv_nth)
      with cnt [of i] st show ?thesis
        by (simp split: if_splits)
    qed
    have q: "queue s = []"
    proof (rule ccontr)
      assume ne: "queue s \<noteq> []"
      with tail fin obtain c where "last (queue s) = Close c"
        by blast
      from count_list_last [OF ne this] cnt [of c] st show False
        by simp
    qed
    have "sum_list (map (\<lambda>p. mset (pending p)) ps) = {#}"
      if "\<forall>p \<in> set ps. p = Finished" for ps
      using that by (induction ps) simp_all
    with fin have "sum_list (map (\<lambda>p. mset (pending p)) (pushers s)) = {#}"
      by blast
    with lines q f show ?thesis
      by simp
  qed
  have bound: "length sched \<le> 3 * length (concat contents) + 3 * length contents"
    if "[] \<notin> set (out s)"
  proof -
    from cost_run [OF assms(1) inv_init assms(2) that]
    have "cost s + length sched = 3 * length (concat contents) + 3 * length contents + 1"
      by (simp only: cost_init)
    moreover from that have "1 \<le> cost s"
      by (simp add: cost_def)
    ultimately show ?thesis
      by linarith
  qed
  from sub all nf inv_can_step [OF I] bound show ?thesis
    by blast
qed

theorem merged_stream_yields_every_line_once_witness:
  "[] \<notin> set (concat [[''a''], [''b'']]) \<and>
   run demo_interleaving (MergedStream [[''a''], [''b'']]) =
     Some \<lparr>pushers = [Finished, Finished], queue = [], streams = [],
           out = [''a'', ''b'', []], failed = False\<rparr> \<and>
   mset [''a'', ''b''] = mset (concat [[''a''], [''b'']])"
proof -
  let ?s = "\<lparr>pushers = [Finished, Finished], queue = [], streams = [],
           out = [''a'', ''b'', []], failed = False\<rparr>"
  have h1: "\<forall>l \<in> set (concat [[''a''], [''b'']]). l \<noteq> []"
    by simp
  have h2: "run demo_interleaving (MergedStream [[''a''], [''b'']]) = Some ?s"
    by (simp add: demo_interleaving_def MergedStream_def exec_def upt_rec)
  from merged_stream_yields_every_line_once [OF h1 h2]
  have "\<forall>ls rest. out ?s = ls @ [] # rest \<and> [] \<notin> set ls \<longrightarrow>
      mset ls = mset (concat [[''a''], [''b'']])"
    by blast
  from this [rule_format, of "[''a'', ''b'']" "[]"]
  have "mset [''a'', ''b''] = mset (concat [[''a''], [''b'']])"
    by simp
  with h2 show ?thesis
    by simp
qed

section \<open>The end marker of a merged stream\<close>

text \<open>
  Claim C4, as amended.  In every state an interleaving can reach: when every member has
  been taken off \<^verbatim>\<open>self.streams\<close>, the consumer's next step returns the end marker and
  changes nothing else, so every later call returns it again; the end marker has been
  returned only if every member is off the list, every reader thread has finished (it has
  made its final empty read and put its close notification) and the queue is empty; while
  a member is still on the list, the consumer cannot step on an empty queue (it blocks in
  \<^verbatim>\<open>q.get()\<close>), and returns the line at the head of the queue when there is one.
\<close>

theorem readline_end_marker_after_all_closed:
  assumes "\<forall>l \<in> set (concat contents). l \<noteq> []"
    and "run sched (MergedStream contents) = Some s"
  shows "(streams s = [] \<longrightarrow> exec Consumer s = Some (s\<lparr>out := out s @ [[]]\<rparr>)) \<and>
         ([] \<in> set (out s) \<longrightarrow>
            streams s = [] \<and> (\<forall>p \<in> set (pushers s). p = Finished) \<and> queue s = []) \<and>
         (streams s \<noteq> [] \<and> queue s = [] \<longrightarrow> exec Consumer s = None) \<and>
         (\<forall>l q'. streams s \<noteq> [] \<and> queue s = Line l # q' \<longrightarrow>
            l \<noteq> [] \<and> exec Consumer s = Some (s\<lparr>queue := q', out := out s @ [l]\<rparr>))"
proof -
  note I = inv_run [OF assms(1) inv_init assms(2)]
  from I have cnt: "\<And>i. count_list (streams s) i =
             (if i < length (pushers s) \<and> pushers s ! i \<noteq> Finished then 1 else 0) +
             count_list (queue s) (Close i)"
    and tail: "(\<forall>p \<in> set (pushers s). p = Finished) \<longrightarrow>
         queue s = [] \<or> (\<exists>c. last (queue s) = Close c)"
    and eof: "[] \<in> set (out s) \<longrightarrow> streams s = []"
    and nf: "\<not> failed s"
    unfolding inv_def by blast+
  have a: "exec Consumer s = Some (s\<lparr>out := out s @ [[]]\<rparr>)" if "streams s = []"
    using that nf by (simp add: exec_def)
  have b: "streams s = [] \<and> (\<forall>p \<in> set (pushers s). p = Finished) \<and> queue s = []"
    if "[] \<in> set (out s)"
  proof -
    from that eof have st: "streams s = []"
      by simp
    have fin: "p = Finished" if "p \<in> set (pushers s)" for p
    proof -
      from that obtain i where i: "i < length (pushers s)" "pushers s ! i = p"
        by (metis in_set_conv_nth)
      with cnt [of i] st show ?thesis
        by (simp split: if_splits)
    qed
    have "queue s = []"
    proof (rule ccontr)
      assume ne: "queue s \<noteq> []"
      with tail fin obtain c where "last (queue s) = Close c"
        by blast
      from count_list_last [OF ne this] cnt [of c] st show False
        by simp
    qed
    with st fin show ?thesis
      by blast
  qed
  have c: "exec Consumer s = None" if "streams s \<noteq> [] \<and> queue s = []"
    using that by (simp add: exec_def)
  have d: "l \<noteq> [] \<and> exec Consumer s = Some (s\<lparr>queue := q', out := out s @ [l]\<rparr>)"
    if "streams s \<noteq> [] \<and> queue s = Line l # q'" for l q'
    using that nf inv_queue_nonempty [OF I assms(1), of l q'] by (simp add: exec_def)
  from a b c d show ?thesis
    by blast
qed

theorem readline_end_marker_after_all_closed_witness:
  "[] \<notin> set (concat [[''a''], [''b'']]) \<and>
   run demo_interleaving (MergedStream [[''a''], [''b'']]) =
     Some \<lparr>pushers = [Finished, Finished], queue = [], streams = [],
           out = [''a'', ''b'', []], failed = False\<rparr> \<and>
   exec Consumer \<lparr>pushers = [Finished, Finished], queue = [], streams = [],
           out = [''a'', ''b'', []], failed = False\<rparr> =
     Some \<lparr>pushers = [Finished, Finished], queue = [], streams = [],
           out = [''a'', ''b'', [], []], failed = False\<rparr> \<and>
   run (take 9 demo_interleaving) (MergedStream [[''a''], [''b'']]) =
     Some \<lparr>pushers = [Finished, Reading []], queue = [], streams = [1],
           out = [''a'', ''b''], failed = False\<rparr> \<and>
   exec Consumer \<lparr>pushers = [Finished, Reading []], queue = [], streams = [1],
           out = [''a'', ''b''], failed = False\<rparr> = None"
proof -
  let ?s = "\<lparr>pushers = [Finished, Finished], queue = [], streams = [],
           out = [''a'', ''b'', []], failed = False\<rparr>"
  let ?m = "\<lparr>pushers = [Finished, Reading []], queue = [], streams = [1],
           out = [''a'', ''b''], failed = False\<rparr>"
  have h1: "\<forall>l \<in> set (concat [[''a''], [''b'']]). l \<noteq> []"
    by simp
  have h2: "run demo_interleaving (MergedStream [[''a''], [''b'']]) = Some ?s"
    by (simp add: demo_interleaving_def MergedStream_def exec_def upt_rec)
  have h3: "run (take 9 demo_interleaving) (MergedStream [[''a''], [''b'']]) = Some ?m"
    by (simp add: demo_interleaving_def MergedStream_def exec_def upt_rec)
  from readline_end_marker_after_all_closed [OF h1 h2]
  have e: "exec Consumer ?s = Some (?s\<lparr>out := out ?s @ [[]]\<rparr>)"
    by simp
  from readline_end_marker_after_all_closed [OF h1 h3]
  have m: "exec Consumer ?m = None"
    by simp
  from h2 h3 e m show ?thesis
    by simp
qed

text \<open>
  The end marker is not returned exactly once: a stream with no line is closed by its
  reader thread, the consumer takes the close notification, and its next two calls of
  \<^verbatim>\<open>readline\<close> both return the empty string.
\<close>

theorem readline_end_marker_repeats_counterexample:
  "run demo_read_past_end (MergedStream [[]]) =
     Some \<lparr>pushers = [Finished], queue = [], streams = [], out = [[], []], failed = False\<rparr>"
  by (simp add: demo_read_past_end_def MergedStream_def exec_def)

text \<open>A call of \<^verbatim>\<open>readline\<close> that returns is a run of consumer steps, the last of which
  returns the value.\<close>

lemma readline_is_consumer_run:
  "streams s = ss \<Longrightarrow> queue s = q \<Longrightarrow> \<not> failed s \<Longrightarrow> readline ss q = (Got l, ss', q') \<Longrightarrow>
   \<exists>n. run (replicate n Consumer) s = Some (s\<lparr>streams := ss', queue := q', out := out s @ [l]\<rparr>)"
proof (induction ss q arbitrary: s rule: readline.induct)
  case (1 q)
  then have "run (replicate 1 Consumer) s =
      Some (s\<lparr>streams := ss', queue := q', out := out s @ [l]\<rparr>)"
    by (auto simp: exec_def)
  then show ?case ..
next
  case (2 a ss)
  then show ?case by simp
next
  case (3 a ss l0 q)
  then have "run (replicate 1 Consumer) s =
      Some (s\<lparr>streams := ss', queue := q', out := out s @ [l]\<rparr>)"
    by (auto simp: exec_def)
  then show ?case ..
next
  case (4 a ss c q)
  show ?case
  proof (cases "c \<in> set (a # ss)")
    case False
    with 4 show ?thesis by simp
  next
    case True
    let ?s1 = "s\<lparr>queue := q, streams := remove1 c (a # ss)\<rparr>"
    from 4 True have e: "exec Consumer s = Some ?s1"
      by (simp add: exec_def)
    from 4 True have "readline (remove1 c (a # ss)) q = (Got l, ss', q')"
      by simp
    from "4.IH" [OF True, of ?s1, OF _ _ _ this] 4 obtain n where
      "run (replicate n Consumer) ?s1 =
         Some (?s1\<lparr>streams := ss', queue := q', out := out ?s1 @ [l]\<rparr>)"
      by auto
    with e have "run (replicate (Suc n) Consumer) s =
        Some (s\<lparr>streams := ss', queue := q', out := out s @ [l]\<rparr>)"
      by simp
    then show ?thesis ..
  qed
qed

end
